theory Spec2Isabelle
  imports Complex_Main "HOL-Library.Word"
begin

section \<open>The VLP-16 packet decoder of velodyne\_puck\_decoder.cpp\<close>

text \<open>
  A shallow embedding of \<^verbatim>\<open>velodyne_puck_decoder.cpp\<close>. The C++ type
  \<^verbatim>\<open>double\<close> is modelled by \<^typ>\<open>real\<close> (rounding is not modelled, \<^verbatim>\<open>M_PI\<close> is
  \<^term>\<open>pi\<close>), \<^verbatim>\<open>size_t\<close> indices by \<^typ>\<open>nat\<close> (every index of the source stays
  below 24), and a fixed-size C array by a function of its index. The decoder object is
  a record that every member function takes and returns; what a member function logs or
  publishes is returned as a list of events.
\<close>

subsection \<open>Constants of the header\<close>

text \<open>
  Modelled from the spec: the header \<^verbatim>\<open>velodyne_puck_decoder.h\<close> is missing. The
  spec gives the counts of the wire format: 12 blocks per packet, 2 firings per block
  (24 per packet), 16 channels per firing, and 3 bytes per channel measurement (a 2-byte
  distance and a 1-byte intensity).
\<close>

abbreviation (input) BLOCKS_PER_PACKET :: nat where "BLOCKS_PER_PACKET \<equiv> 12"
abbreviation (input) FIRINGS_PER_BLOCK :: nat where "FIRINGS_PER_BLOCK \<equiv> 2"
abbreviation (input) FIRINGS_PER_PACKET :: nat where "FIRINGS_PER_PACKET \<equiv> 24"
abbreviation (input) SCANS_PER_FIRING :: nat where "SCANS_PER_FIRING \<equiv> 16"
abbreviation (input) RAW_SCAN_SIZE :: nat where "RAW_SCAN_SIZE \<equiv> 3"

text \<open>
  The header's remaining constants have no value in the spec; they are parameters of the
  model: the bank marker of a block header, the distance of one raw unit, the time
  between two channels of a firing and between two firings, and the table of the
  channels' altitude angles.
\<close>

record header_consts =
  UPPER_BANK :: "16 word"
  DISTANCE_RESOLUTION :: real
  DSR_TOFFSET :: real
  FIRING_TOFFSET :: real
  scan_altitude :: "nat \<Rightarrow> real"

text \<open>
  Modelled from the spec: the tables \<^verbatim>\<open>cos_scan_altitude\<close> and
  \<^verbatim>\<open>sin_scan_altitude\<close> of the missing header hold, for each channel, the cosine and
  the sine of its altitude angle.
\<close>

definition cos_scan_altitude :: "header_consts \<Rightarrow> nat \<Rightarrow> real" where
  "cos_scan_altitude c scan_idx = cos (scan_altitude c scan_idx)"

definition sin_scan_altitude :: "header_consts \<Rightarrow> nat \<Rightarrow> real" where
  "sin_scan_altitude c scan_idx = sin (scan_altitude c scan_idx)"

text \<open>
  Modelled from the spec: \<^verbatim>\<open>rawAzimuthToDouble\<close> of the missing header. The raw
  azimuth counts hundredths of a degree and is scaled to radians when read.
\<close>

definition rawAzimuthToDouble :: "16 word \<Rightarrow> real" where
  "rawAzimuthToDouble raw_azimuth = real (unat raw_azimuth) / 100 * (pi / 180)"

subsection \<open>Data\<close>

record RawBlock =
  header :: "16 word"
  rotation :: "16 word"
  data :: "nat \<Rightarrow> 8 word"

record RawPacket =
  blocks :: "nat \<Rightarrow> RawBlock"

record Firing =
  firing_azimuth :: real
  azimuth :: "nat \<Rightarrow> real"
  distance :: "nat \<Rightarrow> real"
  intensity :: "nat \<Rightarrow> real"

record VelodynePuckPoint =
  point_time :: real
  point_x :: real
  point_y :: real
  point_z :: real
  point_azimuth :: real
  point_distance :: real
  point_intensity :: real

text \<open>
  A sweep is the array \<^verbatim>\<open>scans[16]\<close> of the sweep message, each scan with its vector
  of points. The altitude that \<^verbatim>\<open>initialize\<close> stores once in each scan is not read by
  the decoder and is left out.
\<close>

type_synonym VelodynePuckSweep = "nat \<Rightarrow> VelodynePuckPoint list"

text \<open>What one call logs and publishes, in order.\<close>

datatype event =
  ROS_WARN nat "16 word"
  | ROS_INFO
  | Publish VelodynePuckSweep

record VelodynePuckDecoder =
  min_range :: real
  max_range :: real
  is_first_sweep :: bool
  last_azimuth :: real
  sweep_start_time :: real
  packet_start_time :: real
  firings :: "nat \<Rightarrow> Firing"
  sweep_data :: VelodynePuckSweep

text \<open>
  The constructor initialises five members and leaves \<^verbatim>\<open>min_range\<close>,
  \<^verbatim>\<open>max_range\<close> and \<^verbatim>\<open>firings\<close> with indeterminate contents: here they are those
  of the argument.
\<close>

definition construct :: "VelodynePuckDecoder \<Rightarrow> VelodynePuckDecoder" where
  "construct u =
     u\<lparr>is_first_sweep := True, last_azimuth := 0, sweep_start_time := 0,
       packet_start_time := 0, sweep_data := (\<lambda>_. [])\<rparr>"

subsection \<open>Parameters\<close>

text \<open>
  \<^verbatim>\<open>pnh.param<double>(name, var, default)\<close> of the ROS library stores in \<^verbatim>\<open>var\<close> the
  value the parameter server has for \<^verbatim>\<open>name\<close>, and the default when it has none. The
  parameter server is a map from option names to values.
\<close>

definition param :: "(string \<rightharpoonup> real) \<Rightarrow> string \<Rightarrow> real \<Rightarrow> real" where
  "param pnh name dflt = (case pnh name of Some v \<Rightarrow> v | None \<Rightarrow> dflt)"

definition loadParameters ::
  "(string \<rightharpoonup> real) \<Rightarrow> VelodynePuckDecoder \<Rightarrow> bool \<times> VelodynePuckDecoder"
where
  "loadParameters pnh d =
     (let d = d\<lparr>min_range := param pnh ''min_range'' 0.5\<rparr>;
          d = d\<lparr>max_range := param pnh ''max_range'' 100.0\<rparr>;
          d = d\<lparr>max_range := param pnh ''frequency'' 20.0\<rparr>
      in (True, d))"

subsection \<open>Loops\<close>

text \<open>
  \<^verbatim>\<open>for (i = a; i < n; ++i) body\<close> and \<^verbatim>\<open>for (i = a; i < n; i += 2) body\<close>, the
  body a function of the index and of the state it changes.
\<close>

function for_loop :: "nat \<Rightarrow> nat \<Rightarrow> (nat \<Rightarrow> 's \<Rightarrow> 's) \<Rightarrow> 's \<Rightarrow> 's" where
  "for_loop i n body s = (if i < n then for_loop (Suc i) n body (body i s) else s)"
  by pat_completeness auto
termination
  by (relation "measure (\<lambda>(i, n, body, s). n - i)") auto

function for_loop_by2 :: "nat \<Rightarrow> nat \<Rightarrow> (nat \<Rightarrow> 's \<Rightarrow> 's) \<Rightarrow> 's \<Rightarrow> 's" where
  "for_loop_by2 i n body s = (if i < n then for_loop_by2 (i + 2) n body (body i s) else s)"
  by pat_completeness auto
termination
  by (relation "measure (\<lambda>(i, n, body, s). n - i)") auto

declare for_loop.simps [simp del]
declare for_loop_by2.simps [simp del]

subsection \<open>Packet validity\<close>

text \<open>
  \<^verbatim>\<open>checkPacketValidity\<close>: the loop over the blocks from \<open>blk_idx\<close> on, which warns
  and returns false at the first header that is not the bank marker.
\<close>

function checkPacketValidity_from ::
  "header_consts \<Rightarrow> RawPacket \<Rightarrow> nat \<Rightarrow> bool \<times> event list"
where
  "checkPacketValidity_from c packet blk_idx =
     (if blk_idx < BLOCKS_PER_PACKET then
        (if header (blocks packet blk_idx) \<noteq> UPPER_BANK c
         then (False, [ROS_WARN blk_idx (header (blocks packet blk_idx))])
         else checkPacketValidity_from c packet (Suc blk_idx))
      else (True, []))"
  by pat_completeness auto
termination
  by (relation "measure (\<lambda>(c, packet, blk_idx). BLOCKS_PER_PACKET - blk_idx)") auto

declare checkPacketValidity_from.simps [simp del]

definition checkPacketValidity :: "header_consts \<Rightarrow> RawPacket \<Rightarrow> bool \<times> event list" where
  "checkPacketValidity c packet = checkPacketValidity_from c packet 0"

definition clearSweepData :: "VelodynePuckDecoder \<Rightarrow> VelodynePuckDecoder" where
  "clearSweepData d =
     for_loop 0 16 (\<lambda>i d. d\<lparr>sweep_data := (sweep_data d)(i := [])\<rparr>) d"

subsection \<open>Decoding a packet into the firings\<close>

text \<open>Lines 93 to 97: an even firing takes the azimuth of its block.\<close>

definition block_azimuth_body :: "RawPacket \<Rightarrow> nat \<Rightarrow> (nat \<Rightarrow> Firing) \<Rightarrow> (nat \<Rightarrow> Firing)" where
  "block_azimuth_body packet fir_idx fs =
     (let blk_idx = fir_idx div 2 in
      fs(fir_idx := (fs fir_idx)\<lparr>firing_azimuth :=
           rawAzimuthToDouble (rotation (blocks packet blk_idx))\<rparr>))"

text \<open>Lines 100 to 118: an odd firing is interpolated.\<close>

definition interpolate_body :: "nat \<Rightarrow> (nat \<Rightarrow> Firing) \<Rightarrow> (nat \<Rightarrow> Firing)" where
  "interpolate_body fir_idx fs =
     (let lfir_idx = (if fir_idx = FIRINGS_PER_PACKET - 1 then fir_idx - 3 else fir_idx - 1);
          rfir_idx = (if fir_idx = FIRINGS_PER_PACKET - 1 then fir_idx - 1 else fir_idx + 1);
          azimuth_diff = firing_azimuth (fs rfir_idx) - firing_azimuth (fs lfir_idx);
          azimuth_diff = (if azimuth_diff < 0 then azimuth_diff + 2 * pi else azimuth_diff);
          fs = fs(fir_idx := (fs fir_idx)\<lparr>firing_azimuth :=
                 firing_azimuth (fs (fir_idx - 1)) + azimuth_diff / 2.0\<rparr>);
          fs = fs(fir_idx := (fs fir_idx)\<lparr>firing_azimuth :=
                 (if firing_azimuth (fs fir_idx) > 2 * pi
                  then firing_azimuth (fs fir_idx) - 2 * pi
                  else firing_azimuth (fs fir_idx))\<rparr>)
      in fs)"

text \<open>
  Lines 135 to 153: the azimuth, the distance and the intensity of one channel of a
  firing. \<^verbatim>\<open>TwoBytes\<close> is a union of a \<^verbatim>\<open>uint16_t\<close> and two bytes; the spec fixes the
  byte order as little-endian, so the first byte is the low one.
\<close>

definition scan_body ::
  "header_consts \<Rightarrow> RawBlock \<Rightarrow> nat \<Rightarrow> nat \<Rightarrow> real \<Rightarrow> nat \<Rightarrow> (nat \<Rightarrow> Firing) \<Rightarrow> (nat \<Rightarrow> Firing)"
where
  "scan_body c raw_block blk_fir_idx fir_idx azimuth_diff scan_fir_idx fs =
     (let byte_idx = RAW_SCAN_SIZE * (SCANS_PER_FIRING * blk_fir_idx + scan_fir_idx);
          fs = fs(fir_idx := (fs fir_idx)\<lparr>azimuth := (azimuth (fs fir_idx))(scan_fir_idx :=
                 firing_azimuth (fs fir_idx) +
                 (real scan_fir_idx * DSR_TOFFSET c / FIRING_TOFFSET c) * azimuth_diff)\<rparr>);
          raw_distance = unat (data raw_block byte_idx) + 256 * unat (data raw_block (byte_idx + 1));
          fs = fs(fir_idx := (fs fir_idx)\<lparr>distance := (distance (fs fir_idx))(scan_fir_idx :=
                 real raw_distance * DISTANCE_RESOLUTION c)\<rparr>);
          fs = fs(fir_idx := (fs fir_idx)\<lparr>intensity := (intensity (fs fir_idx))(scan_fir_idx :=
                 real (unat (data raw_block (byte_idx + 2))))\<rparr>)
      in fs)"

text \<open>Lines 124 to 154: one firing of a block.\<close>

definition block_firing_body ::
  "header_consts \<Rightarrow> RawBlock \<Rightarrow> nat \<Rightarrow> nat \<Rightarrow> (nat \<Rightarrow> Firing) \<Rightarrow> (nat \<Rightarrow> Firing)"
where
  "block_firing_body c raw_block blk_idx blk_fir_idx fs =
     (let fir_idx = blk_idx * FIRINGS_PER_BLOCK + blk_fir_idx;
          azimuth_diff =
            (if fir_idx < FIRINGS_PER_PACKET - 1
             then firing_azimuth (fs (fir_idx + 1)) - firing_azimuth (fs fir_idx)
             else firing_azimuth (fs fir_idx) - firing_azimuth (fs (fir_idx - 1)))
      in for_loop 0 SCANS_PER_FIRING
           (scan_body c raw_block blk_fir_idx fir_idx azimuth_diff) fs)"

definition block_body ::
  "header_consts \<Rightarrow> RawPacket \<Rightarrow> nat \<Rightarrow> (nat \<Rightarrow> Firing) \<Rightarrow> (nat \<Rightarrow> Firing)"
where
  "block_body c packet blk_idx fs =
     (let raw_block = blocks packet blk_idx in
      for_loop 0 FIRINGS_PER_BLOCK (block_firing_body c raw_block blk_idx) fs)"

definition decodePacket ::
  "header_consts \<Rightarrow> RawPacket \<Rightarrow> VelodynePuckDecoder \<Rightarrow> VelodynePuckDecoder"
where
  "decodePacket c packet d =
     (let fs = firings d;
          fs = for_loop_by2 0 FIRINGS_PER_PACKET (block_azimuth_body packet) fs;
          fs = for_loop_by2 1 FIRINGS_PER_PACKET interpolate_body fs;
          fs = for_loop 0 BLOCKS_PER_PACKET (block_body c packet) fs
      in d\<lparr>firings := fs\<rparr>)"

subsection \<open>The packet callback\<close>

text \<open>
  Modelled from the spec: \<^verbatim>\<open>isPointInRange\<close> of the missing header. A measurement is
  filtered out when its distance is below \<^verbatim>\<open>min_range\<close> or above \<^verbatim>\<open>max_range\<close>.
\<close>

definition isPointInRange :: "VelodynePuckDecoder \<Rightarrow> real \<Rightarrow> bool" where
  "isPointInRange d dst = (\<not> (dst < min_range d \<or> dst > max_range d))"

text \<open>
  Lines 173 to 180, the do-while loop that looks for the first firing whose azimuth is
  below the last azimuth seen: it returns \<^verbatim>\<open>new_sweep_start\<close> and the updated
  \<^verbatim>\<open>last_azimuth\<close>.
\<close>

function new_sweep_start_loop :: "(nat \<Rightarrow> Firing) \<Rightarrow> nat \<Rightarrow> real \<Rightarrow> nat \<times> real" where
  "new_sweep_start_loop fs new_sweep_start la =
     (if firing_azimuth (fs new_sweep_start) < la then (new_sweep_start, la)
      else if Suc new_sweep_start < FIRINGS_PER_PACKET
        then new_sweep_start_loop fs (Suc new_sweep_start) (firing_azimuth (fs new_sweep_start))
        else (Suc new_sweep_start, firing_azimuth (fs new_sweep_start)))"
  by pat_completeness auto
termination
  by (relation "measure (\<lambda>(fs, new_sweep_start, la). FIRINGS_PER_PACKET - new_sweep_start)") auto

declare new_sweep_start_loop.simps [simp del]

text \<open>
  Lines 201 to 235 (and, word for word, 256 to 290): one channel of one firing becomes a
  point of the sweep, unless its distance is out of range.
\<close>

definition point_body ::
  "header_consts \<Rightarrow> nat \<Rightarrow> nat \<Rightarrow> VelodynePuckDecoder \<Rightarrow> VelodynePuckDecoder"
where
  "point_body c fir_idx scan_idx d =
     (if \<not> isPointInRange d (distance (firings d fir_idx) scan_idx) then d
      else
        let x = distance (firings d fir_idx) scan_idx *
                  cos_scan_altitude c scan_idx * sin (azimuth (firings d fir_idx) scan_idx);
            y = distance (firings d fir_idx) scan_idx *
                  cos_scan_altitude c scan_idx * cos (azimuth (firings d fir_idx) scan_idx);
            z = distance (firings d fir_idx) scan_idx * sin_scan_altitude c scan_idx;
            x_coord = y;
            y_coord = - x;
            z_coord = z;
            time = packet_start_time d +
                     FIRING_TOFFSET c * real fir_idx + DSR_TOFFSET c * real scan_idx;
            remapped_scan_idx = (if scan_idx mod 2 = 0 then scan_idx div 2 else scan_idx div 2 + 8);
            new_point = \<lparr>point_time = time, point_x = x_coord, point_y = y_coord,
                         point_z = z_coord,
                         point_azimuth = azimuth (firings d fir_idx) scan_idx,
                         point_distance = distance (firings d fir_idx) scan_idx,
                         point_intensity = intensity (firings d fir_idx) scan_idx\<rparr>
        in d\<lparr>sweep_data := (sweep_data d)(remapped_scan_idx :=
               sweep_data d remapped_scan_idx @ [new_point])\<rparr>)"

text \<open>Lines 199 to 237 and 254 to 292: the two loops over a range of firings.\<close>

definition append_firings ::
  "header_consts \<Rightarrow> nat \<Rightarrow> nat \<Rightarrow> VelodynePuckDecoder \<Rightarrow> VelodynePuckDecoder"
where
  "append_firings c start_fir_idx end_fir_idx d =
     for_loop start_fir_idx end_fir_idx
       (\<lambda>fir_idx. for_loop 0 SCANS_PER_FIRING (point_body c fir_idx)) d"

text \<open>
  Lines 166 to 298 of \<^verbatim>\<open>packetCallback\<close>, on the packet that line 164 obtains from the
  message.
\<close>

definition packetCallback_raw ::
  "header_consts \<Rightarrow> RawPacket \<Rightarrow> VelodynePuckDecoder \<Rightarrow> VelodynePuckDecoder \<times> event list"
where
  "packetCallback_raw c raw_packet d =
     (case checkPacketValidity c raw_packet of
        (False, evs) \<Rightarrow> (d, evs)
      | (True, evs) \<Rightarrow>
          let d = decodePacket c raw_packet d;
              (new_sweep_start, la) = new_sweep_start_loop (firings d) 0 (last_azimuth d);
              d = d\<lparr>last_azimuth := la\<rparr>
          in
            if is_first_sweep d \<and> new_sweep_start = FIRINGS_PER_PACKET then (d, evs)
            else
              let first = is_first_sweep d;
                  evs = (if first then evs @ [ROS_INFO] else evs);
                  d = (if first then d\<lparr>is_first_sweep := False\<rparr> else d);
                  start_fir_idx = (if first then new_sweep_start else 0);
                  end_fir_idx = (if first then FIRINGS_PER_PACKET else new_sweep_start);
                  d = append_firings c start_fir_idx end_fir_idx d;
                  d = d\<lparr>packet_start_time := packet_start_time d +
                         FIRING_TOFFSET c * real (end_fir_idx - start_fir_idx)\<rparr>
              in
                if end_fir_idx \<noteq> FIRINGS_PER_PACKET then
                  let evs = evs @ [Publish (sweep_data d)];
                      d = clearSweepData d;
                      d = d\<lparr>packet_start_time := 0.0\<rparr>;
                      d = d\<lparr>last_azimuth := firing_azimuth (firings d (FIRINGS_PER_PACKET - 1))\<rparr>;
                      start_fir_idx = end_fir_idx;
                      end_fir_idx = FIRINGS_PER_PACKET;
                      d = append_firings c start_fir_idx end_fir_idx d;
                      d = d\<lparr>packet_start_time := packet_start_time d +
                             FIRING_TOFFSET c * real (end_fir_idx - start_fir_idx)\<rparr>
                  in (d, evs)
                else (d, evs))"

text \<open>A sequence of packets, delivered in order; the events of all calls, in order.\<close>

fun deliver ::
  "header_consts \<Rightarrow> RawPacket list \<Rightarrow> VelodynePuckDecoder \<Rightarrow> VelodynePuckDecoder \<times> event list"
where
  "deliver c [] d = (d, [])"
| "deliver c (p # ps) d =
     (let (d1, evs1) = packetCallback_raw c p d;
          (d2, evs2) = deliver c ps d1
      in (d2, evs1 @ evs2))"

subsection \<open>The message bytes\<close>

text \<open>
  Modelled from the spec: the struct \<^verbatim>\<open>RawPacket\<close> of the missing header, at which
  line 164 reinterprets the bytes of the message. By sections 3 and 6 of the spec a
  packet is 12 blocks of 100 bytes, each a 2-byte header, a 2-byte azimuth and 96 data
  bytes, all multi-byte fields little-endian, followed by 6 more bytes (1206 in all).
\<close>

definition le16 :: "8 word \<Rightarrow> 8 word \<Rightarrow> 16 word" where
  "le16 lo hi = of_nat (unat lo + 256 * unat hi)"

definition castRawPacket :: "8 word list \<Rightarrow> RawPacket" where
  "castRawPacket msg_data =
     \<lparr>blocks = (\<lambda>blk_idx.
        \<lparr>header = le16 (msg_data ! (100 * blk_idx)) (msg_data ! (100 * blk_idx + 1)),
         rotation = le16 (msg_data ! (100 * blk_idx + 2)) (msg_data ! (100 * blk_idx + 3)),
         data = (\<lambda>i. msg_data ! (100 * blk_idx + 4 + i))\<rparr>)\<rparr>"

text \<open>
  \<^verbatim>\<open>packetCallback\<close> on the bytes of the message. The source compares the length of
  the buffer with nothing. The 12 blocks it reads are the first 1200 bytes; with a
  shorter buffer it reads past the end, for which C++ defines no behaviour: the model
  says \<^term>\<open>Inl OutOfBoundsRead\<close> and nothing more of such a call.
\<close>

datatype undefined_behaviour = OutOfBoundsRead

definition packetCallback ::
  "header_consts \<Rightarrow> 8 word list \<Rightarrow> VelodynePuckDecoder \<Rightarrow>
     undefined_behaviour + VelodynePuckDecoder \<times> event list"
where
  "packetCallback c msg_data d =
     (if length msg_data < BLOCKS_PER_PACKET * 100 then Inl OutOfBoundsRead
      else Inr (packetCallback_raw c (castRawPacket msg_data) d))"

subsection \<open>The specification's words\<close>

text \<open>
  The definitions of this subsection follow the spec, not the source: the theorems below
  compare them with the functions above.

  The interpolation of section 4.2: the difference of the right and the left azimuth,
  plus \<open>2\<pi>\<close> when negative, halved and added to a base azimuth, minus \<open>2\<pi>\<close> when the
  result exceeds \<open>2\<pi>\<close>.
\<close>

definition interpolated_azimuth :: "real \<Rightarrow> real \<Rightarrow> real \<Rightarrow> real" where
  "interpolated_azimuth left right base =
     (let diff = right - left;
          diff = (if diff < 0 then diff + 2 * pi else diff);
          result = base + diff / 2
      in if result > 2 * pi then result - 2 * pi else result)"

text \<open>The azimuth of block \<open>i\<close> of a packet, in radians.\<close>

definition block_azimuth :: "RawPacket \<Rightarrow> nat \<Rightarrow> real" where
  "block_azimuth p i = rawAzimuthToDouble (rotation (blocks p i))"

text \<open>
  The remapping of section 3 from the raw channel index to the physical vertical order:
  an even index to its half, an odd index to its half plus 8.
\<close>

definition physical_index :: "nat \<Rightarrow> nat" where
  "physical_index channel = (if even channel then channel div 2 else channel div 2 + 8)"

text \<open>
  The projection of section 4.4 of one channel of one firing: the point in the sensor's
  native frame, remapped to the output frame, with its timestamp.
\<close>

definition projected_point ::
  "header_consts \<Rightarrow> VelodynePuckDecoder \<Rightarrow> nat \<Rightarrow> nat \<Rightarrow> VelodynePuckPoint"
where
  "projected_point c d firing_index channel_index =
     (let dst = distance (firings d firing_index) channel_index;
          az = azimuth (firings d firing_index) channel_index;
          altitude = scan_altitude c channel_index;
          x_native = dst * cos altitude * sin az;
          y_native = dst * cos altitude * cos az;
          z_native = dst * sin altitude
      in \<lparr>point_time = packet_start_time d + real firing_index * FIRING_TOFFSET c +
             real channel_index * DSR_TOFFSET c,
          point_x = y_native, point_y = - x_native, point_z = z_native,
          point_azimuth = az, point_distance = dst,
          point_intensity = intensity (firings d firing_index) channel_index\<rparr>)"

text \<open>The range filter of section 4.4: the measurements that are kept.\<close>

definition in_range :: "VelodynePuckDecoder \<Rightarrow> nat \<Rightarrow> nat \<Rightarrow> bool" where
  "in_range d firing_index channel_index =
     (min_range d \<le> distance (firings d firing_index) channel_index \<and>
      distance (firings d firing_index) channel_index \<le> max_range d)"

text \<open>
  The in-range points of firing \<open>firing_index\<close> that belong to the physical channel
  \<open>r\<close>, in the order of the raw channels, and those of the firings \<open>[a, b)\<close>, in the
  order of the firings.
\<close>

definition firing_points ::
  "header_consts \<Rightarrow> VelodynePuckDecoder \<Rightarrow> nat \<Rightarrow> nat list \<Rightarrow> nat \<Rightarrow> VelodynePuckPoint list"
where
  "firing_points c d r channels firing_index =
     map (projected_point c d firing_index)
       (filter (\<lambda>ch. physical_index ch = r \<and> in_range d firing_index ch) channels)"

definition segment_points ::
  "header_consts \<Rightarrow> VelodynePuckDecoder \<Rightarrow> nat \<Rightarrow> nat \<Rightarrow> nat \<Rightarrow> VelodynePuckPoint list"
where
  "segment_points c d a b r = concat (map (firing_points c d r [0..<16]) [a..<b])"

text \<open>
  The firing azimuths of section 4.2 in terms of the twelve block azimuths.
\<close>

definition expected_firing_azimuth :: "RawPacket \<Rightarrow> nat \<Rightarrow> real" where
  "expected_firing_azimuth p j =
     (if even j then block_azimuth p (j div 2)
      else if j = 23 then
        interpolated_azimuth (block_azimuth p 10) (block_azimuth p 11) (block_azimuth p 11)
      else
        interpolated_azimuth (block_azimuth p (j div 2)) (block_azimuth p (j div 2 + 1))
          (block_azimuth p (j div 2)))"

text \<open>
  The 24 firing azimuths that \<^verbatim>\<open>decodePacket\<close> stores for a packet, in firing order.
\<close>

definition packet_firing_azimuths ::
  "header_consts \<Rightarrow> RawPacket \<Rightarrow> VelodynePuckDecoder \<Rightarrow> real list"
where
  "packet_firing_azimuths c p d =
     map (\<lambda>j. firing_azimuth (firings (decodePacket c p d) j)) [0..<FIRINGS_PER_PACKET]"

text \<open>The sweeps handed to the output collaborator among the events of a call.\<close>

fun published :: "event list \<Rightarrow> VelodynePuckSweep list" where
  "published [] = []"
| "published (Publish sw # evs) = sw # published evs"
| "published (ROS_WARN k h # evs) = published evs"
| "published (ROS_INFO # evs) = published evs"

text \<open>
  The distance of a channel as section 3 describes it: the 2-byte little-endian raw
  value of the channel's triplet, scaled by the distance resolution.
\<close>

definition raw_distance_of :: "header_consts \<Rightarrow> RawBlock \<Rightarrow> nat \<Rightarrow> nat \<Rightarrow> real" where
  "raw_distance_of c raw_block blk_fir_idx ch =
     real (unat (data raw_block (3 * (16 * blk_fir_idx + ch))) +
           256 * unat (data raw_block (3 * (16 * blk_fir_idx + ch) + 1))) *
     DISTANCE_RESOLUTION c"

subsection \<open>Example inputs\<close>

text \<open>
  Concrete inputs for the theorems that are stated at an input. The constants are those
  of the VLP-16 manual (bank marker \<open>0xEEFF\<close>, 2 mm per raw unit, 2.304 and 55.296
  microseconds between channels and firings, altitudes from -15 to 15 degrees).
  \<^term>\<open>hundredths h\<close> is the angle of \<open>h\<close> hundredths of a degree, in radians.
\<close>

definition hundredths :: "real \<Rightarrow> real" where
  "hundredths h = h / 100 * (pi / 180)"

definition example_consts :: header_consts where
  "example_consts =
     \<lparr>UPPER_BANK = 0xEEFF, DISTANCE_RESOLUTION = 0.002, DSR_TOFFSET = 2.304,
      FIRING_TOFFSET = 55.296,
      scan_altitude = (\<lambda>i. (if even i then real i - 15 else real i) * (pi / 180))\<rparr>"

text \<open>
  A decoder as \<^verbatim>\<open>initialize\<close> leaves it: constructed, then its parameters loaded
  from an empty parameter server.
\<close>

definition blank_decoder :: VelodynePuckDecoder where
  "blank_decoder =
     \<lparr>min_range = 0, max_range = 0, is_first_sweep = False, last_azimuth = 0,
      sweep_start_time = 0, packet_start_time = 0,
      firings = (\<lambda>_. \<lparr>firing_azimuth = 0, azimuth = (\<lambda>_. 0), distance = (\<lambda>_. 0),
                        intensity = (\<lambda>_. 0)\<rparr>),
      sweep_data = (\<lambda>_. [])\<rparr>"

definition fresh_decoder :: VelodynePuckDecoder where
  "fresh_decoder = snd (loadParameters Map.empty (construct blank_decoder))"

text \<open>
  A valid packet with the given block azimuths (in hundredths of a degree), in which
  every channel measures 1000 raw units (2 m) with intensity 64.
\<close>

definition example_packet :: "nat list \<Rightarrow> RawPacket" where
  "example_packet rotations =
     \<lparr>blocks = (\<lambda>b. \<lparr>header = 0xEEFF, rotation = of_nat (rotations ! b),
          data = (\<lambda>i. if i mod 3 = 0 then 0xE8 else if i mod 3 = 1 then 0x03 else 0x40)\<rparr>)\<rparr>"

text \<open>
  The first three packets of the round trip of section 8: block azimuths from 10 to 350
  degrees; from 358 degrees across 0 at firing 8; from 4 to 9.5 degrees.
\<close>

definition packet1 :: RawPacket where
  "packet1 = example_packet
     [1000, 4000, 7000, 10000, 13000, 16000, 19000, 22000, 25000, 28000, 33500, 35000]"

definition packet2 :: RawPacket where
  "packet2 = example_packet [35800, 35850, 35900, 35950, 0, 50, 100, 150, 200, 250, 300, 350]"

definition packet3 :: RawPacket where
  "packet3 = example_packet [400, 450, 500, 550, 600, 650, 700, 750, 800, 850, 900, 950]"

definition after_packet1 :: VelodynePuckDecoder where
  "after_packet1 = fst (packetCallback_raw example_consts packet1 fresh_decoder)"

definition after_packet2 :: VelodynePuckDecoder where
  "after_packet2 = fst (packetCallback_raw example_consts packet2 after_packet1)"

definition after_packet3 :: VelodynePuckDecoder where
  "after_packet3 = fst (packetCallback_raw example_consts packet3 after_packet2)"

text \<open>
  More packets: the fourth packet of the round trip, which crosses 0 degrees at firing
  3; a packet that continues \<^term>\<open>packet1\<close> without a wrap; a copy of
  \<^term>\<open>packet1\<close> whose block 3 has the header 0; and a packet whose azimuths decrease
  twice, at firing 3 and again at firing 8.
\<close>

definition packet4 :: RawPacket where
  "packet4 = example_packet [35900, 35980, 60, 140, 220, 300, 380, 460, 540, 620, 700, 780]"

definition packet1b :: RawPacket where
  "packet1b = example_packet
     [35760, 35770, 35780, 35790, 35800, 35810, 35820, 35830, 35840, 35850, 35860, 35870]"

definition bad_packet :: RawPacket where
  "bad_packet = packet1\<lparr>blocks := (blocks packet1)(3 := (blocks packet1 3)\<lparr>header := 0\<rparr>)\<rparr>"


text \<open>The decoder of the round trip after its fourth packet.\<close>

definition after_packet4 :: VelodynePuckDecoder where
  "after_packet4 = fst (packetCallback_raw example_consts packet4 after_packet3)"

text \<open>Two packets with the same 12 blocks: headers, azimuths and 96 data bytes.\<close>

definition same_blocks :: "RawPacket \<Rightarrow> RawPacket \<Rightarrow> bool" where
  "same_blocks p p' \<longleftrightarrow>
     (\<forall>b<12. header (blocks p b) = header (blocks p' b) \<and>
        rotation (blocks p b) = rotation (blocks p' b) \<and>
        (\<forall>i<96. data (blocks p b) i = data (blocks p' b) i))"

text \<open>
  A buffer of 1207 bytes, one more than a packet: 12 valid blocks, each with the azimuth
  0.16 degrees and all data zero, then 7 zero bytes.
\<close>

definition long_message :: "8 word list" where
  "long_message =
     map (\<lambda>i. if 1200 \<le> i then 0
              else if i mod 100 = 0 then 0xFF
              else if i mod 100 = 1 then 0xEE
              else if i mod 100 = 2 then 0x10
              else 0) [0..<1207]"

section \<open>Properties of the decoder\<close>

subsection \<open>Loops as folds\<close>

lemma for_loop_fold: "for_loop a n body s = fold body [a..<n] s"
proof (induction a n body s rule: for_loop.induct)
  case (1 i n body s)
  show ?case
  proof (cases "i < n")
    case True
    with 1 show ?thesis
      by (subst for_loop.simps) (simp add: upt_rec)
  next
    case False
    then show ?thesis
      by (subst for_loop.simps) simp
  qed
qed

lemma for_loop_by2_even:
  "for_loop_by2 0 FIRINGS_PER_PACKET body s =
     fold body [0, 2, 4, 6, 8, 10, 12, 14, 16, 18, 20, 22] s"
  by (simp add: for_loop_by2.simps del: add_2_eq_Suc add_2_eq_Suc')

lemma for_loop_by2_odd:
  "for_loop_by2 1 FIRINGS_PER_PACKET body s =
     fold body [1, 3, 5, 7, 9, 11, 13, 15, 17, 19, 21, 23] s"
  by (simp add: for_loop_by2.simps del: add_2_eq_Suc add_2_eq_Suc')

lemma fold_preserves: "(\<And>i s. g (f i s) = g s) \<Longrightarrow> g (fold f xs s) = g s"
  by (induction xs arbitrary: s) simp_all

subsection \<open>The firing azimuths of a decoded packet\<close>

text \<open>
  The third loop of \<^verbatim>\<open>decodePacket\<close> leaves the firing azimuths alone; the first
  writes the even firings and the second the odd ones, reading even firings only.
\<close>

lemma scan_body_firing_azimuth:
  "firing_azimuth (scan_body c rb bf fi ad sc fs j) = firing_azimuth (fs j)"
  by (simp add: scan_body_def Let_def)

lemma block_body_firing_azimuth:
  "firing_azimuth (block_body c p b fs j) = firing_azimuth (fs j)"
  unfolding block_body_def block_firing_body_def Let_def for_loop_fold
  by (rule fold_preserves [where g = "\<lambda>fs. firing_azimuth (fs j)"],
      rule fold_preserves [where g = "\<lambda>fs. firing_azimuth (fs j)"],
      rule scan_body_firing_azimuth)

lemma block_azimuth_body_apply:
  "firing_azimuth (block_azimuth_body p i fs j) =
     (if j = i then block_azimuth p (i div 2) else firing_azimuth (fs j))"
  by (simp add: block_azimuth_body_def block_azimuth_def)

lemma fold_block_azimuth_body:
  "firing_azimuth (fold (block_azimuth_body p) xs fs j) =
     (if j \<in> set xs then block_azimuth p (j div 2) else firing_azimuth (fs j))"
  by (induction xs arbitrary: fs rule: rev_induct) (simp_all add: block_azimuth_body_apply)

lemma interpolate_body_apply:
  "firing_azimuth (interpolate_body i fs j) =
     (if j = i then
        interpolated_azimuth (firing_azimuth (fs (if i = 23 then i - 3 else i - 1)))
          (firing_azimuth (fs (if i = 23 then i - 1 else i + 1)))
          (firing_azimuth (fs (i - 1)))
      else firing_azimuth (fs j))"
  by (simp add: interpolate_body_def interpolated_azimuth_def Let_def)

lemma fold_interpolate_body:
  assumes "\<forall>x \<in> set xs. odd x"
  shows "firing_azimuth (fold interpolate_body xs fs j) =
     (if j \<in> set xs then
        interpolated_azimuth (firing_azimuth (fs (if j = 23 then j - 3 else j - 1)))
          (firing_azimuth (fs (if j = 23 then j - 1 else j + 1)))
          (firing_azimuth (fs (j - 1)))
      else firing_azimuth (fs j))"
  using assms
proof (induction xs arbitrary: j rule: rev_induct)
  case Nil
  then show ?case by simp
next
  case (snoc x xs)
  from snoc.prems have ox: "odd x" and oxs: "\<forall>x \<in> set xs. odd x" by simp_all
  have ev: "firing_azimuth (fold interpolate_body xs fs k) = firing_azimuth (fs k)"
    if "even k" for k
    using snoc.IH [OF oxs, of k] oxs that by auto
  let ?g = "fold interpolate_body xs fs"
  let ?l = "if x = 23 then x - 3 else x - 1" and ?r = "if x = 23 then x - 1 else x + 1"
  from ox have "even ?l" "even ?r" "even (x - 1)" by auto
  then have reads: "firing_azimuth (?g ?l) = firing_azimuth (fs ?l)"
    "firing_azimuth (?g ?r) = firing_azimuth (fs ?r)"
    "firing_azimuth (?g (x - 1)) = firing_azimuth (fs (x - 1))"
    using ev by blast+
  show ?case
  proof (cases "j = x")
    case True
    have "firing_azimuth (fold interpolate_body (xs @ [x]) fs j) =
        interpolated_azimuth (firing_azimuth (?g ?l)) (firing_azimuth (?g ?r))
          (firing_azimuth (?g (x - 1)))"
      using True by (simp add: interpolate_body_apply)
    then show ?thesis using True reads by simp
  next
    case False
    have "firing_azimuth (fold interpolate_body (xs @ [x]) fs j) = firing_azimuth (?g j)"
      using False by (simp add: interpolate_body_apply)
    then show ?thesis using False snoc.IH [OF oxs, of j] by simp
  qed
qed

lemma decodePacket_firing_azimuth:
  "firing_azimuth (firings (decodePacket c p d) j) =
     firing_azimuth
       (fold interpolate_body [1, 3, 5, 7, 9, 11, 13, 15, 17, 19, 21, 23]
          (fold (block_azimuth_body p) [0, 2, 4, 6, 8, 10, 12, 14, 16, 18, 20, 22]
             (firings d)) j)"
  unfolding decodePacket_def Let_def for_loop_by2_even for_loop_by2_odd for_loop_fold
  by (simp add: fold_preserves [where g = "\<lambda>fs. firing_azimuth (fs j)"]
      block_body_firing_azimuth)

lemma even_indices: "[0, 2, 4, 6, 8, 10, 12, 14, 16, 18, 20, 22] = map (\<lambda>i. 2 * i) [0..<12::nat]"
  by (simp add: upt_rec)

lemma odd_indices: "[1, 3, 5, 7, 9, 11, 13, 15, 17, 19, 21, 23] = map (\<lambda>i. 2 * i + 1) [0..<12::nat]"
  by (simp add: upt_rec)

lemma even_firing:
  assumes "i < 12"
  shows "firing_azimuth (firings (decodePacket c p d) (2 * i)) = block_azimuth p i"
proof -
  have "\<forall>x \<in> set (map (\<lambda>i. 2 * i + 1) [0..<12::nat]). odd x" by simp
  moreover have "2 * i \<notin> set (map (\<lambda>i. 2 * i + 1) [0..<12::nat])" by auto presburger
  moreover have "2 * i \<in> set (map (\<lambda>i. 2 * i) [0..<12::nat])" using assms by simp
  ultimately show ?thesis
    unfolding decodePacket_firing_azimuth even_indices odd_indices
    by (simp only: fold_interpolate_body fold_block_azimuth_body if_True if_False) simp
qed

lemma odd_firing:
  assumes "i < 11"
  shows "firing_azimuth (firings (decodePacket c p d) (2 * i + 1)) =
    interpolated_azimuth (block_azimuth p i) (block_azimuth p (i + 1)) (block_azimuth p i)"
proof -
  have "\<forall>x \<in> set (map (\<lambda>i. 2 * i + 1) [0..<12::nat]). odd x" by simp
  moreover have "2 * i + 1 \<in> set (map (\<lambda>i. 2 * i + 1) [0..<12::nat])" using assms by simp
  moreover have "2 * i \<in> set (map (\<lambda>i. 2 * i) [0..<12::nat])" using assms by simp
  moreover have "2 * i + 2 \<in> set (map (\<lambda>i. 2 * i) [0..<12::nat])"
    using assms image_eqI [where f = "\<lambda>i. 2 * i" and x = "Suc i" and A = "{0..<12}"] by simp
  moreover have "2 * i + 1 \<noteq> 23" using assms by simp
  ultimately show ?thesis
    unfolding decodePacket_firing_azimuth even_indices odd_indices
    by (simp only: fold_interpolate_body fold_block_azimuth_body if_True if_False) simp
qed

lemma last_firing:
  "firing_azimuth (firings (decodePacket c p d) 23) =
    interpolated_azimuth (block_azimuth p 10) (block_azimuth p 11) (block_azimuth p 11)"
  unfolding decodePacket_firing_azimuth
  by (subst fold_interpolate_body, simp, simp only: fold_block_azimuth_body) simp

subsection \<open>The search for the first decrease\<close>

lemma new_sweep_start_loop_no_decrease:
  assumes "i < 24" "la \<le> firing_azimuth (fs i)"
    and "\<forall>j. i \<le> j \<and> j < 23 \<longrightarrow> firing_azimuth (fs j) \<le> firing_azimuth (fs (Suc j))"
  shows "new_sweep_start_loop fs i la = (24, firing_azimuth (fs 23))"
  using assms
proof (induction fs i la rule: new_sweep_start_loop.induct)
  case (1 fs i la)
  show ?case
  proof (cases "Suc i < 24")
    case True
    then have "firing_azimuth (fs i) \<le> firing_azimuth (fs (Suc i))"
      using "1.prems" by simp
    moreover have "\<forall>j. Suc i \<le> j \<and> j < 23 \<longrightarrow> firing_azimuth (fs j) \<le> firing_azimuth (fs (Suc j))"
      using "1.prems" by simp
    ultimately have "new_sweep_start_loop fs (Suc i) (firing_azimuth (fs i)) =
        (24, firing_azimuth (fs 23))"
      using "1.IH" True "1.prems" by simp
    then show ?thesis
      using True "1.prems" by (subst new_sweep_start_loop.simps) simp
  next
    case False
    then have "i = 23" using "1.prems" by simp
    then show ?thesis
      using "1.prems" by (subst new_sweep_start_loop.simps) simp
  qed
qed

lemma new_sweep_start_loop_decrease:
  assumes "i < k" "k < 24" "la \<le> firing_azimuth (fs i)"
    and "\<forall>j. i \<le> j \<and> Suc j < k \<longrightarrow> firing_azimuth (fs j) \<le> firing_azimuth (fs (Suc j))"
    and "firing_azimuth (fs k) < firing_azimuth (fs (k - 1))"
  shows "new_sweep_start_loop fs i la = (k, firing_azimuth (fs (k - 1)))"
  using assms
proof (induction fs i la rule: new_sweep_start_loop.induct)
  case (1 fs i la)
  have step: "new_sweep_start_loop fs i la =
      new_sweep_start_loop fs (Suc i) (firing_azimuth (fs i))"
    using "1.prems" by (subst new_sweep_start_loop.simps) simp
  show ?case
  proof (cases "Suc i = k")
    case True
    then have "new_sweep_start_loop fs (Suc i) (firing_azimuth (fs i)) =
        (k, firing_azimuth (fs (k - 1)))"
      using "1.prems" by (subst new_sweep_start_loop.simps) auto
    with step show ?thesis by simp
  next
    case False
    then have lt: "Suc i < k" using "1.prems" by simp
    then have "firing_azimuth (fs i) \<le> firing_azimuth (fs (Suc i))"
      using "1.prems" by simp
    moreover have "\<forall>j. Suc i \<le> j \<and> Suc j < k \<longrightarrow> firing_azimuth (fs j) \<le> firing_azimuth (fs (Suc j))"
      using "1.prems" by simp
    ultimately have "new_sweep_start_loop fs (Suc i) (firing_azimuth (fs i)) =
        (k, firing_azimuth (fs (k - 1)))"
      using "1.IH" lt "1.prems" by simp
    with step show ?thesis by simp
  qed
qed


lemma new_sweep_start_loop_le: "i < 24 \<Longrightarrow> fst (new_sweep_start_loop fs i la) \<le> 24"
proof (induction fs i la rule: new_sweep_start_loop.induct)
  case (1 fs i la)
  then show ?case
    by (subst new_sweep_start_loop.simps) auto
qed

subsection \<open>The points of a segment\<close>

text \<open>
  The two loops over a range of firings append, for every physical channel, the
  in-range points of the segment in order.
\<close>

lemma point_body_eq:
  "point_body c f s d =
     d\<lparr>sweep_data := (\<lambda>r. sweep_data d r @ firing_points c d r [s] f)\<rparr>"
  by (auto simp add: point_body_def firing_points_def projected_point_def in_range_def
      isPointInRange_def physical_index_def Let_def cos_scan_altitude_def sin_scan_altitude_def
      fun_eq_iff algebra_simps intro!: VelodynePuckDecoder.equality)

lemma firing_points_sweep_data [simp]:
  "firing_points c (d\<lparr>sweep_data := sw\<rparr>) r chs f = firing_points c d r chs f"
  by (simp add: firing_points_def projected_point_def in_range_def)

lemma firing_points_append:
  "firing_points c d r (xs @ ys) f = firing_points c d r xs f @ firing_points c d r ys f"
  by (simp add: firing_points_def)

lemma fold_point_body:
  "fold (point_body c f) chs d =
     d\<lparr>sweep_data := (\<lambda>r. sweep_data d r @ firing_points c d r chs f)\<rparr>"
proof (induction chs rule: rev_induct)
  case Nil
  then show ?case by (simp add: firing_points_def)
next
  case (snoc s chs)
  then show ?case
    by (simp add: point_body_eq firing_points_append)
qed

lemma fold_firings:
  "fold (\<lambda>f. fold (point_body c f) chs) fis d =
     d\<lparr>sweep_data := (\<lambda>r. sweep_data d r @ concat (map (firing_points c d r chs) fis))\<rparr>"
proof (induction fis rule: rev_induct)
  case Nil
  then show ?case by simp
next
  case (snoc f fis)
  then show ?case
    by (simp add: fold_point_body)
qed

lemma for_loop_fold_fun: "for_loop a n body = fold body [a..<n]"
  by (rule ext) (rule for_loop_fold)

lemma append_firings_eq:
  "append_firings c a b d =
     d\<lparr>sweep_data := (\<lambda>r. sweep_data d r @ segment_points c d a b r)\<rparr>"
  by (simp only: append_firings_def for_loop_fold_fun fold_firings segment_points_def)

lemma clearSweepData_eq:
  "clearSweepData d = d\<lparr>sweep_data := (\<lambda>r. if r < 16 then [] else sweep_data d r)\<rparr>"
proof -
  have "fold (\<lambda>i d. d\<lparr>sweep_data := (sweep_data d)(i := [])\<rparr>) xs d =
      d\<lparr>sweep_data := (\<lambda>r. if r \<in> set xs then [] else sweep_data d r)\<rparr>" for xs
    by (induction xs rule: rev_induct) (auto simp add: fun_eq_iff)
  then show ?thesis
    by (simp add: clearSweepData_def for_loop_fold)
qed

subsection \<open>The outcomes of a call\<close>

lemma checkPacketValidity_from_valid:
  assumes "\<forall>j. i \<le> j \<and> j < 12 \<longrightarrow> header (blocks p j) = UPPER_BANK c"
  shows "checkPacketValidity_from c p i = (True, [])"
  using assms
proof (induction c p i rule: checkPacketValidity_from.induct)
  case (1 c packet blk_idx)
  then show ?case
    by (subst checkPacketValidity_from.simps) simp
qed

lemma checkPacketValidity_from_invalid:
  assumes "i \<le> k" "k < 12" "header (blocks p k) \<noteq> UPPER_BANK c"
    and "\<forall>j. i \<le> j \<and> j < k \<longrightarrow> header (blocks p j) = UPPER_BANK c"
  shows "checkPacketValidity_from c p i = (False, [ROS_WARN k (header (blocks p k))])"
  using assms
proof (induction c p i rule: checkPacketValidity_from.induct)
  case (1 c packet blk_idx)
  show ?case
  proof (cases "blk_idx = k")
    case True
    then show ?thesis
      using "1.prems" by (subst checkPacketValidity_from.simps) simp
  next
    case False
    then have "header (blocks packet blk_idx) = UPPER_BANK c" "Suc blk_idx \<le> k" "blk_idx < 12"
      using "1.prems" by auto
    then show ?thesis
      using "1.IH" "1.prems" by (subst checkPacketValidity_from.simps) simp
  qed
qed

lemma firing_points_unfold:
  "firing_points c d r chs =
     (\<lambda>f. map (\<lambda>ch. projected_point c
         \<lparr>min_range = min_range d, max_range = max_range d, is_first_sweep = False,
          last_azimuth = 0, sweep_start_time = 0, packet_start_time = packet_start_time d,
          firings = firings d, sweep_data = (\<lambda>_. [])\<rparr> f ch)
       (filter (\<lambda>ch. physical_index ch = r \<and>
           min_range d \<le> distance (firings d f) ch \<and>
           distance (firings d f) ch \<le> max_range d) chs))"
  by (rule ext) (simp add: firing_points_def projected_point_def in_range_def)

lemma segment_points_cong:
  assumes "firings d' = firings d" "min_range d' = min_range d" "max_range d' = max_range d"
    "packet_start_time d' = packet_start_time d"
  shows "segment_points c d' a b r = segment_points c d a b r"
  using assms
  by (simp add: segment_points_def firing_points_unfold)

lemma segment_points_update [simp]:
  "segment_points c (d\<lparr>sweep_data := sw\<rparr>) a b r = segment_points c d a b r"
  "segment_points c (d\<lparr>last_azimuth := la\<rparr>) a b r = segment_points c d a b r"
  "segment_points c (d\<lparr>is_first_sweep := fi\<rparr>) a b r = segment_points c d a b r"
  by (rule segment_points_cong; simp)+

lemma decodePacket_fields [simp]:
  "min_range (decodePacket c p d) = min_range d"
  "max_range (decodePacket c p d) = max_range d"
  "is_first_sweep (decodePacket c p d) = is_first_sweep d"
  "last_azimuth (decodePacket c p d) = last_azimuth d"
  "sweep_start_time (decodePacket c p d) = sweep_start_time d"
  "packet_start_time (decodePacket c p d) = packet_start_time d"
  "sweep_data (decodePacket c p d) = sweep_data d"
  by (simp_all add: decodePacket_def Let_def)

lemma packetCallback_raw_invalid:
  "checkPacketValidity c p = (False, evs) \<Longrightarrow> packetCallback_raw c p d = (d, evs)"
  by (simp add: packetCallback_raw_def)

lemma packetCallback_raw_first_no_wrap:
  assumes "checkPacketValidity c p = (True, [])"
    and "new_sweep_start_loop (firings (decodePacket c p d)) 0 (last_azimuth d) = (24, la)"
    and "is_first_sweep d"
  shows "packetCallback_raw c p d = ((decodePacket c p d)\<lparr>last_azimuth := la\<rparr>, [])"
  using assms by (simp add: packetCallback_raw_def Let_def)

lemma packetCallback_raw_first_wrap:
  assumes "checkPacketValidity c p = (True, [])"
    and "new_sweep_start_loop (firings (decodePacket c p d)) 0 (last_azimuth d) = (k, la)"
    and "is_first_sweep d" "k \<noteq> 24"
  shows "packetCallback_raw c p d =
     ((decodePacket c p d)\<lparr>is_first_sweep := False, last_azimuth := la,
        packet_start_time := packet_start_time d + FIRING_TOFFSET c * real (24 - k),
        sweep_data := (\<lambda>r. sweep_data d r @ segment_points c (decodePacket c p d) k 24 r)\<rparr>,
      [ROS_INFO])"
  using assms
  by (simp add: packetCallback_raw_def Let_def append_firings_eq)

lemma packetCallback_raw_no_wrap:
  assumes "checkPacketValidity c p = (True, [])"
    and "new_sweep_start_loop (firings (decodePacket c p d)) 0 (last_azimuth d) = (24, la)"
    and "\<not> is_first_sweep d"
  shows "packetCallback_raw c p d =
     ((decodePacket c p d)\<lparr>last_azimuth := la,
        packet_start_time := packet_start_time d + FIRING_TOFFSET c * real (24::nat),
        sweep_data := (\<lambda>r. sweep_data d r @ segment_points c (decodePacket c p d) 0 24 r)\<rparr>,
      [])"
  using assms
  by (simp add: packetCallback_raw_def Let_def append_firings_eq)

lemma packetCallback_raw_wrap:
  assumes "checkPacketValidity c p = (True, [])"
    and "new_sweep_start_loop (firings (decodePacket c p d)) 0 (last_azimuth d) = (k, la)"
    and "\<not> is_first_sweep d" "k \<noteq> 24"
  shows "packetCallback_raw c p d =
     ((decodePacket c p d)\<lparr>
        last_azimuth := firing_azimuth (firings (decodePacket c p d) 23),
        packet_start_time := 0 + FIRING_TOFFSET c * real (24 - k),
        sweep_data := (\<lambda>r.
          (if r < 16 then []
           else sweep_data d r @ segment_points c (decodePacket c p d) 0 k r) @
          segment_points c ((decodePacket c p d)\<lparr>packet_start_time := 0\<rparr>) k 24 r)\<rparr>,
      [Publish (\<lambda>r. sweep_data d r @ segment_points c (decodePacket c p d) 0 k r)])"
  using assms
  by (simp add: packetCallback_raw_def Let_def append_firings_eq clearSweepData_eq
      segment_points_def firing_points_unfold cong: if_cong)

lemma physical_index_less: "s < 16 \<Longrightarrow> physical_index s < 16"
  by (auto simp add: physical_index_def)

lemma segment_points_member:
  "q \<in> set (segment_points c d a b r) \<longleftrightarrow>
     (\<exists>f s. a \<le> f \<and> f < b \<and> s < 16 \<and> physical_index s = r \<and> in_range d f s \<and>
        q = projected_point c d f s)"
  by (auto simp add: segment_points_def firing_points_def)

lemma segment_points_outside:
  assumes "16 \<le> r"
  shows "segment_points c d a b r = []"
proof (cases "segment_points c d a b r")
  case Nil
  then show ?thesis .
next
  case (Cons q qs)
  then have "q \<in> set (segment_points c d a b r)" by simp
  then obtain s where "s < 16" "physical_index s = r"
    unfolding segment_points_member by blast
  with physical_index_less [of s] assms show ?thesis by simp
qed

text \<open>The validity check either finds a first bad block or accepts the packet.\<close>

lemma checkPacketValidity_cases:
  obtains (invalid) k where "k < 12" "header (blocks p k) \<noteq> UPPER_BANK c"
      "\<forall>j<k. header (blocks p j) = UPPER_BANK c"
      "checkPacketValidity c p = (False, [ROS_WARN k (header (blocks p k))])"
  | (valid) "\<forall>j<12. header (blocks p j) = UPPER_BANK c" "checkPacketValidity c p = (True, [])"
proof (cases "\<forall>j<12. header (blocks p j) = UPPER_BANK c")
  case True
  then have "checkPacketValidity c p = (True, [])"
    by (simp add: checkPacketValidity_def checkPacketValidity_from_valid)
  with True show ?thesis by (rule valid)
next
  case False
  define k where "k = (LEAST j. j < 12 \<and> header (blocks p j) \<noteq> UPPER_BANK c)"
  from False have ex: "\<exists>j. j < 12 \<and> header (blocks p j) \<noteq> UPPER_BANK c" by blast
  then have k: "k < 12 \<and> header (blocks p k) \<noteq> UPPER_BANK c"
    unfolding k_def by (rule LeastI_ex)
  have least: "\<forall>j<k. header (blocks p j) = UPPER_BANK c"
  proof (intro allI impI)
    fix j
    assume "j < k"
    then have "\<not> (j < 12 \<and> header (blocks p j) \<noteq> UPPER_BANK c)"
      unfolding k_def by (rule not_less_Least)
    moreover from \<open>j < k\<close> k have "j < 12" by simp
    ultimately show "header (blocks p j) = UPPER_BANK c" by simp
  qed
  have "checkPacketValidity c p = (False, [ROS_WARN k (header (blocks p k))])"
    unfolding checkPacketValidity_def
    using k least by (intro checkPacketValidity_from_invalid) simp_all
  with k least show ?thesis by (intro invalid [of k]) simp_all
qed

lemma valid_checkPacketValidity:
  "\<forall>i<12. header (blocks p i) = UPPER_BANK c \<Longrightarrow> checkPacketValidity c p = (True, [])"
  by (simp add: checkPacketValidity_def checkPacketValidity_from_valid)

text \<open>The five outcomes of one call.\<close>

lemma packetCallback_raw_cases:
  obtains (invalid) k where "k < 12"
      "packetCallback_raw c p d = (d, [ROS_WARN k (header (blocks p k))])"
  | (waiting) la where "is_first_sweep d"
      "packetCallback_raw c p d = ((decodePacket c p d)\<lparr>last_azimuth := la\<rparr>, [])"
  | (start) k la where "is_first_sweep d" "k < 24"
      "packetCallback_raw c p d =
         ((decodePacket c p d)\<lparr>is_first_sweep := False, last_azimuth := la,
            packet_start_time := packet_start_time d + FIRING_TOFFSET c * real (24 - k),
            sweep_data := (\<lambda>r. sweep_data d r @ segment_points c (decodePacket c p d) k 24 r)\<rparr>,
          [ROS_INFO])"
  | (continue) la where "\<not> is_first_sweep d"
      "packetCallback_raw c p d =
         ((decodePacket c p d)\<lparr>last_azimuth := la,
            packet_start_time := packet_start_time d + FIRING_TOFFSET c * real (24::nat),
            sweep_data := (\<lambda>r. sweep_data d r @ segment_points c (decodePacket c p d) 0 24 r)\<rparr>,
          [])"
  | (wrap) k where "\<not> is_first_sweep d" "k < 24"
      "packetCallback_raw c p d =
         ((decodePacket c p d)\<lparr>
            last_azimuth := firing_azimuth (firings (decodePacket c p d) 23),
            packet_start_time := 0 + FIRING_TOFFSET c * real (24 - k),
            sweep_data := (\<lambda>r.
              (if r < 16 then []
               else sweep_data d r @ segment_points c (decodePacket c p d) 0 k r) @
              segment_points c ((decodePacket c p d)\<lparr>packet_start_time := 0\<rparr>) k 24 r)\<rparr>,
          [Publish (\<lambda>r. sweep_data d r @ segment_points c (decodePacket c p d) 0 k r)])"
proof (cases rule: checkPacketValidity_cases [where c = c and p = p])
  case (invalid k)
  then show ?thesis
    using that(1) [of k] by (simp add: packetCallback_raw_invalid)
next
  case valid
  obtain k la where loop:
    "new_sweep_start_loop (firings (decodePacket c p d)) 0 (last_azimuth d) = (k, la)"
    by (cases "new_sweep_start_loop (firings (decodePacket c p d)) 0 (last_azimuth d)")
  have "k \<le> 24"
    using new_sweep_start_loop_le [of 0 "firings (decodePacket c p d)" "last_azimuth d"] loop
    by simp
  then consider "k = 24" | "k < 24" by linarith
  then show ?thesis
  proof cases
    case 1
    show ?thesis
    proof (cases "is_first_sweep d")
      case True
      with valid loop 1 show ?thesis
        using that(2) [of la] by (simp add: packetCallback_raw_first_no_wrap)
    next
      case False
      with valid loop 1 show ?thesis
        using that(4) [of la] by (simp add: packetCallback_raw_no_wrap)
    qed
  next
    case 2
    then have ne: "k \<noteq> 24" by simp
    show ?thesis
    proof (cases "is_first_sweep d")
      case True
      show ?thesis
        using that(3) [of k la] True 2
          packetCallback_raw_first_wrap [OF valid(2) loop True ne] by simp
    next
      case False
      show ?thesis
        using that(5) [of k] False 2
          packetCallback_raw_wrap [OF valid(2) loop False ne] by simp
    qed
  qed
qed

lemma projected_point_fields:
  "point_distance (projected_point c d f s) = distance (firings d f) s"
  "point_azimuth (projected_point c d f s) = azimuth (firings d f) s"
  "point_intensity (projected_point c d f s) = intensity (firings d f) s"
  "point_x (projected_point c d f s) =
     distance (firings d f) s * cos (scan_altitude c s) * cos (azimuth (firings d f) s)"
  "point_y (projected_point c d f s) =
     - (distance (firings d f) s * cos (scan_altitude c s) * sin (azimuth (firings d f) s))"
  "point_z (projected_point c d f s) = distance (firings d f) s * sin (scan_altitude c s)"
  "point_time (projected_point c d f s) =
     packet_start_time d + real f * FIRING_TOFFSET c + real s * DSR_TOFFSET c"
  by (simp_all add: projected_point_def Let_def)

subsection \<open>Published sweeps and the range filter\<close>

lemma published_append: "published (xs @ ys) = published xs @ published ys"
  by (induction xs rule: published.induct) simp_all

lemma published_member: "sw \<in> set (published evs) \<longleftrightarrow> Publish sw \<in> set evs"
  by (induction evs rule: published.induct) auto

lemma segment_points_in_range:
  assumes "q \<in> set (segment_points c e a b r)"
  shows "min_range e \<le> point_distance q \<and> point_distance q \<le> max_range e"
proof -
  from assms obtain f s where "in_range e f s" "q = projected_point c e f s"
    unfolding segment_points_member by blast
  then show ?thesis
    by (simp add: in_range_def projected_point_fields)
qed

lemma packetCallback_raw_ranges:
  assumes "packetCallback_raw c p d = (d', evs)"
  shows "min_range d' = min_range d \<and> max_range d' = max_range d"
  using assms
  by (cases rule: packetCallback_raw_cases [where c = c and p = p and d = d]) auto

lemma packetCallback_raw_in_range:
  assumes inv: "\<forall>r. \<forall>q \<in> set (sweep_data d r).
      min_range d \<le> point_distance q \<and> point_distance q \<le> max_range d"
    and call: "packetCallback_raw c p d = (d', evs)"
  shows "(\<forall>r. \<forall>q \<in> set (sweep_data d' r).
      min_range d \<le> point_distance q \<and> point_distance q \<le> max_range d) \<and>
    (\<forall>sw \<in> set (published evs). \<forall>r. \<forall>q \<in> set (sw r).
      min_range d \<le> point_distance q \<and> point_distance q \<le> max_range d)"
proof -
  let ?d1 = "decodePacket c p d"
  have seg: "min_range d \<le> point_distance q \<and> point_distance q \<le> max_range d"
    if "q \<in> set (segment_points c ?d1 a b r)" for q a b r
    using segment_points_in_range [OF that] by simp
  have seg0: "min_range d \<le> point_distance q \<and> point_distance q \<le> max_range d"
    if "q \<in> set (segment_points c (?d1\<lparr>packet_start_time := 0\<rparr>) a b r)" for q a b r
    using segment_points_in_range [OF that] by simp
  show ?thesis
  proof (cases rule: packetCallback_raw_cases [where c = c and p = p and d = d])
    case (invalid k)
    with inv call show ?thesis by auto
  next
    case (waiting la)
    with inv call show ?thesis by auto
  next
    case (start k la)
    with inv call seg show ?thesis by auto
  next
    case (continue la)
    with inv call seg show ?thesis by auto
  next
    case (wrap k)
    with inv call seg seg0 show ?thesis by (auto split: if_splits)
  qed
qed

lemma deliver_in_range:
  assumes "\<forall>r. \<forall>q \<in> set (sweep_data d r).
      min_range d \<le> point_distance q \<and> point_distance q \<le> max_range d"
  shows "\<forall>sw \<in> set (published (snd (deliver c ps d))). \<forall>r. \<forall>q \<in> set (sw r).
      min_range d \<le> point_distance q \<and> point_distance q \<le> max_range d"
  using assms
proof (induction ps arbitrary: d)
  case Nil
  then show ?case by simp
next
  case (Cons p ps)
  obtain d1 evs1 where call: "packetCallback_raw c p d = (d1, evs1)"
    by (cases "packetCallback_raw c p d")
  obtain d2 evs2 where rest: "deliver c ps d1 = (d2, evs2)"
    by (cases "deliver c ps d1")
  have ranges: "min_range d1 = min_range d" "max_range d1 = max_range d"
    using packetCallback_raw_ranges [OF call] by simp_all
  have step: "(\<forall>r. \<forall>q \<in> set (sweep_data d1 r).
      min_range d \<le> point_distance q \<and> point_distance q \<le> max_range d) \<and>
    (\<forall>sw \<in> set (published evs1). \<forall>r. \<forall>q \<in> set (sw r).
      min_range d \<le> point_distance q \<and> point_distance q \<le> max_range d)"
    using packetCallback_raw_in_range [OF Cons.prems call] .
  then have "\<forall>sw \<in> set (published evs2). \<forall>r. \<forall>q \<in> set (sw r).
      min_range d \<le> point_distance q \<and> point_distance q \<le> max_range d"
    using Cons.IH [of d1] rest ranges by simp
  with step show ?case
    using call rest by (auto simp add: published_append)
qed

lemma point_body_skip:
  "\<not> isPointInRange e (distance (firings e f) s) \<Longrightarrow> point_body c f s e = e"
  by (simp add: point_body_def)

lemma in_range_appended:
  assumes "a \<le> f" "f < b" "s < 16" "isPointInRange e (distance (firings e f) s)"
  shows "projected_point c e f s \<in> set (sweep_data (append_firings c a b e) (physical_index s))"
proof -
  from assms have "in_range e f s"
    by (simp add: in_range_def isPointInRange_def)
  with assms have "projected_point c e f s \<in> set (segment_points c e a b (physical_index s))"
    unfolding segment_points_member by blast
  then show ?thesis
    by (simp add: append_firings_eq)
qed

subsection \<open>Firing azimuths in terms of the blocks\<close>

lemma decoded_firing_azimuth:
  assumes "j < 24"
  shows "firing_azimuth (firings (decodePacket c p d) j) = expected_firing_azimuth p j"
proof (cases "even j")
  case True
  then obtain i where "j = 2 * i" by (auto elim: evenE)
  with assms show ?thesis
    by (simp add: expected_firing_azimuth_def even_firing)
next
  case False
  then obtain i where j: "j = 2 * i + 1" by (auto elim: oddE)
  show ?thesis
  proof (cases "j = 23")
    case True
    then show ?thesis
      by (simp add: expected_firing_azimuth_def last_firing)
  next
    case False
    with j assms have i: "i < 11" by simp
    show ?thesis
      using odd_firing [OF i, of c p d] False unfolding j
      by (simp add: expected_firing_azimuth_def)
  qed
qed

lemma packet_firing_azimuths_eq:
  "packet_firing_azimuths c p d = map (expected_firing_azimuth p) [0..<24]"
  unfolding packet_firing_azimuths_def
  by (rule map_cong) (simp_all add: decoded_firing_azimuth)

lemma sorted_upt_map:
  assumes "sorted (a # map f [0..<Suc n] @ rest)"
  shows "a \<le> f 0" "\<forall>j<n. f j \<le> f (Suc j)" "sorted (f n # rest)"
proof -
  from assms have s: "sorted (map f [0..<Suc n])" and a: "\<forall>x \<in> set (map f [0..<Suc n]). a \<le> x"
    and r: "sorted rest" "\<forall>x \<in> set (map f [0..<Suc n]). \<forall>y \<in> set rest. x \<le> y"
    by (auto simp add: sorted_append simp del: upt_Suc map_append)
  from a show "a \<le> f 0" by (simp del: upt_Suc)
  show "\<forall>j<n. f j \<le> f (Suc j)"
  proof (intro allI impI)
    fix j
    assume "j < n"
    then have "map f [0..<Suc n] ! j \<le> map f [0..<Suc n] ! Suc j"
      using s by (intro sorted_nth_mono) (simp_all del: upt_Suc)
    with \<open>j < n\<close> show "f j \<le> f (Suc j)"
      by (simp del: upt_Suc add: nth_map_upt)
  qed
  from r show "sorted (f n # rest)" by (auto simp del: upt_Suc)
qed

lemma first_sweep_no_wrap_step:
  assumes first: "is_first_sweep d"
    and valid: "\<forall>i<12. header (blocks p i) = UPPER_BANK c"
    and sorted: "sorted (last_azimuth d # packet_firing_azimuths c p d @ rest)"
  shows "packetCallback_raw c p d =
      ((decodePacket c p d)\<lparr>last_azimuth := firing_azimuth (firings (decodePacket c p d) 23)\<rparr>, [])"
    and "sorted (firing_azimuth (firings (decodePacket c p d) 23) # rest)"
proof -
  let ?f = "\<lambda>j. firing_azimuth (firings (decodePacket c p d) j)"
  have "[0..<24] = [0..<Suc 23]" by simp
  with sorted have s: "sorted (last_azimuth d # map ?f [0..<Suc 23] @ rest)"
    unfolding packet_firing_azimuths_def by metis
  note facts = sorted_upt_map [OF s]
  have "new_sweep_start_loop (firings (decodePacket c p d)) 0 (last_azimuth d) = (24, ?f 23)"
    using facts(1,2) by (intro new_sweep_start_loop_no_decrease) simp_all
  then show "packetCallback_raw c p d = ((decodePacket c p d)\<lparr>last_azimuth := ?f 23\<rparr>, [])"
    using first valid by (simp add: packetCallback_raw_first_no_wrap valid_checkPacketValidity)
  from facts(3) show "sorted (?f 23 # rest)" .
qed

lemma packet_firing_azimuths_decoder:
  "packet_firing_azimuths c p d' = packet_firing_azimuths c p d"
  by (simp add: packet_firing_azimuths_eq)

lemma deliver_first_sweep_no_wrap:
  assumes "is_first_sweep d"
    and "\<forall>p \<in> set ps. \<forall>i<12. header (blocks p i) = UPPER_BANK c"
    and "sorted (last_azimuth d # concat (map (\<lambda>p. packet_firing_azimuths c p d0) ps))"
  shows "snd (deliver c ps d) = [] \<and> is_first_sweep (fst (deliver c ps d)) \<and>
    sweep_data (fst (deliver c ps d)) = sweep_data d"
  using assms
proof (induction ps arbitrary: d)
  case Nil
  then show ?case by simp
next
  case (Cons p ps)
  let ?rest = "concat (map (\<lambda>p. packet_firing_azimuths c p d0) ps)"
  let ?d1 = "(decodePacket c p d)\<lparr>last_azimuth := firing_azimuth (firings (decodePacket c p d) 23)\<rparr>"
  from Cons.prems have valid: "\<forall>i<12. header (blocks p i) = UPPER_BANK c" by simp
  from Cons.prems have "sorted (last_azimuth d # packet_firing_azimuths c p d @ ?rest)"
    using packet_firing_azimuths_decoder [of c p d0 d] by simp
  note step = first_sweep_no_wrap_step [OF Cons.prems(1) valid this]
  have "snd (deliver c ps ?d1) = [] \<and> is_first_sweep (fst (deliver c ps ?d1)) \<and>
    sweep_data (fst (deliver c ps ?d1)) = sweep_data ?d1"
    using Cons.prems step(2) by (intro Cons.IH) simp_all
  then show ?case
    using step(1) by (simp add: case_prod_beta)
qed

subsection \<open>The example inputs\<close>

lemma hundredths_less [simp]: "hundredths a < hundredths b \<longleftrightarrow> a < b"
  by (simp add: hundredths_def field_simps)

lemma hundredths_le [simp]: "hundredths a \<le> hundredths b \<longleftrightarrow> a \<le> b"
  by (simp add: hundredths_def field_simps)

lemma hundredths_eq [simp]: "hundredths a = hundredths b \<longleftrightarrow> a = b"
  by (simp add: hundredths_def field_simps)

lemma hundredths_zero: "0 = hundredths 0"
  by (simp add: hundredths_def)

lemma interpolated_azimuth_hundredths:
  "interpolated_azimuth (hundredths l) (hundredths r) (hundredths b) =
     hundredths
       (let diff = r - l;
            diff = (if diff < 0 then diff + 36000 else diff);
            result = b + diff / 2
        in if result > 36000 then result - 36000 else result)"
proof -
  have two_pi: "2 * pi = hundredths 36000" by (simp add: hundredths_def)
  have diff: "hundredths x - hundredths y = hundredths (x - y)" for x y
    by (simp add: hundredths_def field_simps)
  have add: "hundredths x + hundredths y = hundredths (x + y)" for x y
    by (simp add: hundredths_def field_simps)
  have half: "hundredths x / 2 = hundredths (x / 2)" for x
    by (simp add: hundredths_def)
  have neg: "hundredths x < 0 \<longleftrightarrow> x < 0" for x
    using hundredths_less [of x 0] by (simp add: hundredths_zero [symmetric] del: hundredths_less)
  show ?thesis
    unfolding interpolated_azimuth_def two_pi Let_def diff neg
    by (simp add: add half diff)
qed

lemma rawAzimuthToDouble_hundredths: "rawAzimuthToDouble w = hundredths (real (unat w))"
  by (simp add: rawAzimuthToDouble_def hundredths_def)

lemma example_packet_valid:
  "\<forall>i<12. header (blocks (example_packet rs) i) = UPPER_BANK example_consts"
  by (simp add: example_packet_def example_consts_def)

lemma example_block_azimuth:
  "block_azimuth (example_packet rs) i = hundredths (real (unat (of_nat (rs ! i) :: 16 word)))"
  by (simp add: block_azimuth_def example_packet_def rawAzimuthToDouble_hundredths)

subsection \<open>The distances of a decoded packet\<close>

lemma scan_body_distance:
  "distance (scan_body c rb bf fi ad sc fs j) s =
     (if j = fi \<and> s = sc then raw_distance_of c rb bf sc else distance (fs j) s)"
  by (simp add: scan_body_def Let_def raw_distance_of_def)

lemma fold_scan_body_distance:
  "distance (fold (scan_body c rb bf fi ad) scs fs j) s =
     (if j = fi \<and> s \<in> set scs then raw_distance_of c rb bf s else distance (fs j) s)"
  by (induction scs rule: rev_induct) (auto simp add: scan_body_distance)

lemma block_firing_body_distance:
  "distance (block_firing_body c rb b bf fs j) s =
     (if j = b * 2 + bf \<and> s < 16 then raw_distance_of c rb bf s else distance (fs j) s)"
  by (simp add: block_firing_body_def Let_def for_loop_fold fold_scan_body_distance)

lemma fold_block_firing_body_distance:
  "distance (fold (block_firing_body c rb b) bfs fs j) s =
     (if (\<exists>bf \<in> set bfs. j = b * 2 + bf) \<and> s < 16 then raw_distance_of c rb (j - b * 2) s
      else distance (fs j) s)"
  by (induction bfs rule: rev_induct) (auto simp add: block_firing_body_distance)

lemma block_body_distance:
  "distance (block_body c p b fs j) s =
     (if j div 2 = b \<and> s < 16 then raw_distance_of c (blocks p b) (j mod 2) s
      else distance (fs j) s)"
proof -
  have "(\<exists>bf \<in> set [0..<2]. j = b * 2 + bf) \<longleftrightarrow> j div 2 = b"
  proof
    assume "\<exists>bf \<in> set [0..<2]. j = b * 2 + bf"
    then show "j div 2 = b" by auto
  next
    assume "j div 2 = b"
    then have "j mod 2 \<in> set [0..<2]" "j = b * 2 + j mod 2" by auto
    then show "\<exists>bf \<in> set [0..<2]. j = b * 2 + bf" by blast
  qed
  moreover have "j div 2 = b \<Longrightarrow> j - b * 2 = j mod 2"
    by (metis add_diff_cancel_left' mult.commute mult_div_mod_eq)
  ultimately show ?thesis
    by (auto simp add: block_body_def Let_def for_loop_fold fold_block_firing_body_distance
        simp del: upt_Suc set_upt)
qed

lemma fold_block_body_distance:
  "distance (fold (block_body c p) bs fs j) s =
     (if j div 2 \<in> set bs \<and> s < 16 then raw_distance_of c (blocks p (j div 2)) (j mod 2) s
      else distance (fs j) s)"
  by (induction bs rule: rev_induct) (auto simp add: block_body_distance)

lemma decoded_distance:
  assumes "j < 24" "s < 16"
  shows "distance (firings (decodePacket c p d) j) s =
     raw_distance_of c (blocks p (j div 2)) (j mod 2) s"
proof -
  from assms have "j div 2 \<in> set [0..<12]" by auto
  with assms show ?thesis
    by (simp add: decodePacket_def Let_def for_loop_fold fold_block_body_distance
        del: upt_Suc set_upt)
qed

subsection \<open>The round trip evaluated\<close>

lemma new_sweep_start_loop_step:
  "n < 24 \<Longrightarrow>
   new_sweep_start_loop (firings (decodePacket c p d)) n la =
     (if expected_firing_azimuth p n < la then (n, la)
      else if n + 1 < 24
        then new_sweep_start_loop (firings (decodePacket c p d)) (n + 1)
               (expected_firing_azimuth p n)
        else (n + 1, expected_firing_azimuth p n))"
  by (subst new_sweep_start_loop.simps) (simp add: decoded_firing_azimuth)

lemmas example_azimuth_simps =
  expected_firing_azimuth_def example_block_azimuth interpolated_azimuth_hundredths

lemma fresh_decoder_fields:
  "is_first_sweep fresh_decoder" "last_azimuth fresh_decoder = hundredths 0"
  "min_range fresh_decoder = 0.5" "max_range fresh_decoder = 20"
  "packet_start_time fresh_decoder = 0" "sweep_data fresh_decoder = (\<lambda>_. [])"
  by (simp_all add: fresh_decoder_def loadParameters_def construct_def param_def
      blank_decoder_def hundredths_def)

lemma packet1_loop:
  "new_sweep_start_loop (firings (decodePacket c packet1 d)) 0 (hundredths 0) =
     (24, hundredths 35750)"
  by (simp add: new_sweep_start_loop_step packet1_def example_azimuth_simps)

lemma packet2_loop:
  "new_sweep_start_loop (firings (decodePacket c packet2 d)) 0 (hundredths 35750) =
     (8, hundredths 35975)"
  by (simp add: new_sweep_start_loop_step packet2_def example_azimuth_simps)

lemma packet3_loop:
  "new_sweep_start_loop (firings (decodePacket c packet3 d)) 0 (hundredths 35975) =
     (0, hundredths 35975)"
  by (simp add: new_sweep_start_loop_step packet3_def example_azimuth_simps)

lemma example_packet_check:
  "checkPacketValidity example_consts (example_packet rs) = (True, [])"
  by (rule valid_checkPacketValidity) (rule example_packet_valid)

lemmas packet_checks =
  example_packet_check [of "[1000, 4000, 7000, 10000, 13000, 16000, 19000, 22000, 25000, 28000, 33500, 35000]", folded packet1_def]
  example_packet_check [of "[35800, 35850, 35900, 35950, 0, 50, 100, 150, 200, 250, 300, 350]", folded packet2_def]
  example_packet_check [of "[400, 450, 500, 550, 600, 650, 700, 750, 800, 850, 900, 950]", folded packet3_def]

lemma call1:
  "packetCallback_raw example_consts packet1 fresh_decoder =
     ((decodePacket example_consts packet1 fresh_decoder)\<lparr>last_azimuth := hundredths 35750\<rparr>, [])"
  by (rule packetCallback_raw_first_no_wrap)
     (simp_all add: packet_checks fresh_decoder_fields packet1_loop)

lemma after_packet1_fields:
  "is_first_sweep after_packet1" "last_azimuth after_packet1 = hundredths 35750"
  "min_range after_packet1 = 0.5" "max_range after_packet1 = 20"
  "packet_start_time after_packet1 = 0" "sweep_data after_packet1 = (\<lambda>_. [])"
  by (simp_all add: after_packet1_def call1 fresh_decoder_fields)

lemma call2:
  "packetCallback_raw example_consts packet2 after_packet1 =
     ((decodePacket example_consts packet2 after_packet1)\<lparr>is_first_sweep := False,
        last_azimuth := hundredths 35975,
        packet_start_time := packet_start_time after_packet1 +
          FIRING_TOFFSET example_consts * real (24 - 8 :: nat),
        sweep_data := (\<lambda>r. sweep_data after_packet1 r @
          segment_points example_consts (decodePacket example_consts packet2 after_packet1) 8 24 r)\<rparr>,
      [ROS_INFO])"
  by (rule packetCallback_raw_first_wrap)
     (simp_all add: packet_checks after_packet1_fields packet2_loop)

lemma after_packet2_fields:
  "\<not> is_first_sweep after_packet2" "last_azimuth after_packet2 = hundredths 35975"
  "min_range after_packet2 = 0.5" "max_range after_packet2 = 20"
  "sweep_data after_packet2 =
     (\<lambda>r. segment_points example_consts (decodePacket example_consts packet2 after_packet1) 8 24 r)"
  by (simp_all add: after_packet2_def call2 after_packet1_fields)

lemma call3:
  "packetCallback_raw example_consts packet3 after_packet2 =
     ((decodePacket example_consts packet3 after_packet2)\<lparr>
        last_azimuth := firing_azimuth (firings (decodePacket example_consts packet3 after_packet2) 23),
        packet_start_time := 0 + FIRING_TOFFSET example_consts * real (24 - 0 :: nat),
        sweep_data := (\<lambda>r.
          (if r < 16 then []
           else sweep_data after_packet2 r @
             segment_points example_consts (decodePacket example_consts packet3 after_packet2) 0 0 r) @
          segment_points example_consts
            ((decodePacket example_consts packet3 after_packet2)\<lparr>packet_start_time := 0\<rparr>) 0 24 r)\<rparr>,
      [Publish (\<lambda>r. sweep_data after_packet2 r @
          segment_points example_consts (decodePacket example_consts packet3 after_packet2) 0 0 r)])"
  by (rule packetCallback_raw_wrap)
     (simp_all add: packet_checks after_packet2_fields packet3_loop)

lemma segment_points_empty [simp]: "segment_points c d a a r = []"
  by (simp add: segment_points_def)

lemma mod3_Suc: "Suc (3 * k) mod 3 = Suc 0"
  by presburger

lemma example_data:
  "data (blocks (example_packet rs) b) (3 * k) = 0xE8"
  "data (blocks (example_packet rs) b) (3 * k + 1) = 0x03"
  by (simp_all add: example_packet_def mod3_Suc)

lemma example_raw_distance:
  "raw_distance_of example_consts (blocks (example_packet rs) b) bf s = 2"
  unfolding raw_distance_of_def example_data
  by (simp add: example_consts_def)

lemma example_distance:
  assumes "j < 24" "s < 16"
  shows "distance (firings (decodePacket example_consts (example_packet rs) d) j) s = 2"
  using assms by (simp only: decoded_distance example_raw_distance)

lemma packet2_point:
  "projected_point example_consts (decodePacket example_consts packet2 after_packet1) 8 0
     \<in> set (sweep_data after_packet2 0)"
proof -
  have "in_range (decodePacket example_consts packet2 after_packet1) 8 0"
    by (simp add: in_range_def packet2_def example_distance after_packet1_fields)
  moreover have "physical_index 0 = 0" by (simp add: physical_index_def)
  ultimately show ?thesis
    unfolding after_packet2_fields segment_points_member
    by (intro exI [of _ 8] exI [of _ 0]) simp
qed

lemma call1_state:
  "packetCallback_raw example_consts packet1 fresh_decoder = (after_packet1, [])"
  by (simp add: after_packet1_def call1)

lemma call2_state:
  "packetCallback_raw example_consts packet2 after_packet1 = (after_packet2, [ROS_INFO])"
  by (simp add: after_packet2_def call2)

lemma call3_state:
  "packetCallback_raw example_consts packet3 after_packet2 =
     (after_packet3, [Publish (sweep_data after_packet2)])"
  by (simp add: after_packet3_def call3)

lemma after_packet3_fields:
  "\<not> is_first_sweep after_packet3" "last_azimuth after_packet3 = hundredths 975"
  "min_range after_packet3 = 0.5" "max_range after_packet3 = 20"
proof -
  have "firing_azimuth (firings (decodePacket example_consts packet3 after_packet2) 23) =
      hundredths 975"
    by (simp add: decoded_firing_azimuth packet3_def example_azimuth_simps)
  then show "\<not> is_first_sweep after_packet3" "last_azimuth after_packet3 = hundredths 975"
    "min_range after_packet3 = 0.5" "max_range after_packet3 = 20"
    by (simp_all add: after_packet3_def call3 after_packet2_fields)
qed

lemma packet4_azimuths:
  "firing_azimuth (firings (decodePacket c packet4 d) 0) = hundredths 35900"
  "firing_azimuth (firings (decodePacket c packet4 d) 1) = hundredths 35940"
  "firing_azimuth (firings (decodePacket c packet4 d) 2) = hundredths 35980"
  "firing_azimuth (firings (decodePacket c packet4 d) 3) = hundredths 20"
  "firing_azimuth (firings (decodePacket c packet4 d) 23) = hundredths 820"
  "firing_azimuth (firings (decodePacket c packet4 d) (Suc 0)) = hundredths 35940"
  by (simp_all add: decoded_firing_azimuth packet4_def example_azimuth_simps)

lemma deliver_round_trip:
  "deliver example_consts [packet1, packet2, packet3] fresh_decoder =
     (after_packet3, [ROS_INFO, Publish (sweep_data after_packet2)])"
  by (simp add: call1_state call2_state call3_state)

lemma sorted_Cons2:
  "sorted (x # y # zs) \<longleftrightarrow> x \<le> y \<and> sorted (y # zs)" "sorted [x]"
  for x :: real
  by auto

lemma packet4_loop:
  "new_sweep_start_loop (firings (decodePacket c packet4 d)) 0 (hundredths 975) =
     (3, hundredths 35980)"
  by (simp add: new_sweep_start_loop_step packet4_def example_azimuth_simps)

lemma after_packet3_time: "packet_start_time after_packet3 = 55.296 * 24"
proof -
  have "packet_start_time after_packet3 = 0 + FIRING_TOFFSET example_consts * real (24 - 0 :: nat)"
    by (simp add: after_packet3_def call3)
  then show ?thesis
    by (simp add: example_consts_def)
qed

lemma call4:
  "packetCallback_raw example_consts packet4 after_packet3 =
     ((decodePacket example_consts packet4 after_packet3)\<lparr>
        last_azimuth := firing_azimuth (firings (decodePacket example_consts packet4 after_packet3) 23),
        packet_start_time := 0 + FIRING_TOFFSET example_consts * real (24 - 3 :: nat),
        sweep_data := (\<lambda>r.
          (if r < 16 then []
           else sweep_data after_packet3 r @
             segment_points example_consts (decodePacket example_consts packet4 after_packet3) 0 3 r) @
          segment_points example_consts
            ((decodePacket example_consts packet4 after_packet3)\<lparr>packet_start_time := 0\<rparr>) 3 24 r)\<rparr>,
      [Publish (\<lambda>r. sweep_data after_packet3 r @
          segment_points example_consts (decodePacket example_consts packet4 after_packet3) 0 3 r)])"
proof -
  have "checkPacketValidity example_consts packet4 = (True, [])"
    unfolding packet4_def by (rule example_packet_check)
  then show ?thesis
    by (rule packetCallback_raw_wrap) (simp_all add: after_packet3_fields packet4_loop)
qed

lemma packet4_points:
  "projected_point example_consts (decodePacket example_consts packet4 after_packet3) 0 0
     \<in> set (segment_points example_consts
              (decodePacket example_consts packet4 after_packet3) 0 3 0)"
  "projected_point example_consts
       ((decodePacket example_consts packet4 after_packet3)\<lparr>packet_start_time := 0\<rparr>) 3 0
     \<in> set (segment_points example_consts
              ((decodePacket example_consts packet4 after_packet3)\<lparr>packet_start_time := 0\<rparr>)
              3 24 0)"
proof -
  have r: "in_range (decodePacket example_consts packet4 after_packet3) 0 0"
    "in_range ((decodePacket example_consts packet4 after_packet3)\<lparr>packet_start_time := 0\<rparr>) 3 0"
    by (simp_all add: in_range_def packet4_def example_distance after_packet3_fields)
  have p: "physical_index 0 = 0" by (simp add: physical_index_def)
  show "projected_point example_consts (decodePacket example_consts packet4 after_packet3) 0 0
     \<in> set (segment_points example_consts
              (decodePacket example_consts packet4 after_packet3) 0 3 0)"
    unfolding segment_points_member using r(1) p
    by (intro exI [of _ 0]) simp
  show "projected_point example_consts
       ((decodePacket example_consts packet4 after_packet3)\<lparr>packet_start_time := 0\<rparr>) 3 0
     \<in> set (segment_points example_consts
              ((decodePacket example_consts packet4 after_packet3)\<lparr>packet_start_time := 0\<rparr>)
              3 24 0)"
    unfolding segment_points_member using r(2) p
    by (intro exI [of _ 3] exI [of _ 0]) simp
qed

subsection \<open>Packets with the same blocks\<close>

lemma checkPacketValidity_cong:
  assumes "same_blocks p p'"
  shows "checkPacketValidity c p = checkPacketValidity c p'"
proof (cases rule: checkPacketValidity_cases [where c = c and p = p])
  case (invalid k)
  with assms have "k < 12" "header (blocks p' k) \<noteq> UPPER_BANK c"
    "\<forall>j. 0 \<le> j \<and> j < k \<longrightarrow> header (blocks p' j) = UPPER_BANK c"
    "header (blocks p' k) = header (blocks p k)"
    by (auto simp add: same_blocks_def)
  then have "checkPacketValidity c p' = (False, [ROS_WARN k (header (blocks p k))])"
    unfolding checkPacketValidity_def
    using checkPacketValidity_from_invalid [of 0 k p' c] by simp
  with invalid show ?thesis by simp
next
  case valid
  with assms have "\<forall>j<12. header (blocks p' j) = UPPER_BANK c"
    by (simp add: same_blocks_def)
  then have "checkPacketValidity c p' = (True, [])"
    by (rule valid_checkPacketValidity)
  with valid show ?thesis by simp
qed

lemma scan_body_cong:
  assumes "\<forall>i<96. data rb i = data rb' i" "bf < 2" "sc < 16"
  shows "scan_body c rb bf fi ad sc = scan_body c rb' bf fi ad sc"
proof -
  from assms(2,3) have "3 * (16 * bf + sc) < 96" "3 * (16 * bf + sc) + 1 < 96"
    "3 * (16 * bf + sc) + 2 < 96" by simp_all
  with assms(1) have "data rb (3 * (16 * bf + sc)) = data rb' (3 * (16 * bf + sc))"
    "data rb (3 * (16 * bf + sc) + 1) = data rb' (3 * (16 * bf + sc) + 1)"
    "data rb (3 * (16 * bf + sc) + 2) = data rb' (3 * (16 * bf + sc) + 2)"
    by blast+
  then show ?thesis
    by (intro ext) (simp add: scan_body_def Let_def)
qed

lemma block_firing_body_cong:
  assumes "\<forall>i<96. data rb i = data rb' i" "bf < 2"
  shows "block_firing_body c rb b bf = block_firing_body c rb' b bf"
proof (rule ext)
  fix fs
  show "block_firing_body c rb b bf fs = block_firing_body c rb' b bf fs"
    unfolding block_firing_body_def Let_def for_loop_fold
    by (rule fold_cong) (simp_all add: scan_body_cong [OF assms])
qed

lemma block_body_cong:
  assumes "same_blocks p p'" "b < 12"
  shows "block_body c p b = block_body c p' b"
proof (rule ext)
  fix fs
  from assms have eq: "\<forall>i<96. data (blocks p b) i = data (blocks p' b) i"
    by (simp add: same_blocks_def)
  show "block_body c p b fs = block_body c p' b fs"
    unfolding block_body_def Let_def for_loop_fold
    by (rule fold_cong) (simp_all add: block_firing_body_cong [OF eq])
qed

lemma block_azimuth_body_cong:
  assumes "same_blocks p p'" "i < 24"
  shows "block_azimuth_body p i = block_azimuth_body p' i"
proof -
  from assms have "rotation (blocks p (i div 2)) = rotation (blocks p' (i div 2))"
    by (simp add: same_blocks_def)
  then show ?thesis
    by (intro ext) (simp add: block_azimuth_body_def)
qed

lemma decodePacket_cong:
  assumes "same_blocks p p'"
  shows "decodePacket c p d = decodePacket c p' d"
proof -
  have "fold (block_azimuth_body p) [0, 2, 4, 6, 8, 10, 12, 14, 16, 18, 20, 22] fs =
      fold (block_azimuth_body p') [0, 2, 4, 6, 8, 10, 12, 14, 16, 18, 20, 22] fs" for fs
    by (rule fold_cong) (auto simp add: block_azimuth_body_cong [OF assms])
  moreover have "fold (block_body c p) [0..<12] fs = fold (block_body c p') [0..<12] fs" for fs
    by (rule fold_cong) (simp_all add: block_body_cong [OF assms])
  ultimately show ?thesis
    unfolding decodePacket_def Let_def for_loop_by2_even for_loop_by2_odd for_loop_fold
    by simp
qed

lemma packetCallback_raw_cong:
  assumes "same_blocks p p'"
  shows "packetCallback_raw c p d = packetCallback_raw c p' d"
  unfolding packetCallback_raw_def
  by (simp only: checkPacketValidity_cong [OF assms] decodePacket_cong [OF assms])

lemma castRawPacket_take:
  assumes "1200 \<le> length msg"
  shows "same_blocks (castRawPacket (take 1200 msg)) (castRawPacket msg)"
  by (simp add: same_blocks_def castRawPacket_def)

subsection \<open>The long buffer\<close>

lemma long_message_length: "length long_message = 1207"
  by (simp add: long_message_def)

lemma long_message_nth:
  "i < 1207 \<Longrightarrow> long_message ! i =
     (if 1200 \<le> i then 0
      else if i mod 100 = 0 then 0xFF
      else if i mod 100 = 1 then 0xEE
      else if i mod 100 = 2 then 0x10
      else 0)"
  by (simp add: long_message_def)

lemma long_message_block:
  assumes "b < 12"
  shows "header (blocks (castRawPacket long_message) b) = 0xEEFF"
    and "rotation (blocks (castRawPacket long_message) b) = 16"
proof -
  have lt: "100 * b < 1200" "100 * b + 1 < 1200" "100 * b + 2 < 1200" "100 * b + 3 < 1200"
    using assms by simp_all
  have m: "(100 * b) mod 100 = 0" "(100 * b + 1) mod 100 = 1" "(100 * b + 2) mod 100 = 2"
    "(100 * b + 3) mod 100 = 3"
    by presburger+
  have nth: "long_message ! (100 * b) = 0xFF" "long_message ! (100 * b + 1) = 0xEE"
    "long_message ! (100 * b + 2) = 0x10" "long_message ! (100 * b + 3) = 0"
    using long_message_nth [of "100 * b"] long_message_nth [of "100 * b + 1"]
      long_message_nth [of "100 * b + 2"] long_message_nth [of "100 * b + 3"] lt
    by (simp_all only: m) simp_all
  show "header (blocks (castRawPacket long_message) b) = 0xEEFF"
    and "rotation (blocks (castRawPacket long_message) b) = 16"
    by (simp_all only: castRawPacket_def RawPacket.select_convs RawBlock.select_convs nth)
       (simp_all add: le16_def)
qed

lemma long_message_valid:
  "\<forall>i<12. header (blocks (castRawPacket long_message) i) = UPPER_BANK example_consts"
  by (simp add: long_message_block example_consts_def)

lemma long_message_azimuth:
  "b < 12 \<Longrightarrow> block_azimuth (castRawPacket long_message) b = hundredths 16"
  by (simp add: block_azimuth_def long_message_block rawAzimuthToDouble_hundredths)

lemma long_message_loop:
  "new_sweep_start_loop (firings (decodePacket c (castRawPacket long_message) d)) 0
     (hundredths 0) = (24, hundredths 16)"
  by (simp add: new_sweep_start_loop_step expected_firing_azimuth_def long_message_azimuth
      interpolated_azimuth_hundredths)

section \<open>Parameter loading\<close>

text \<open>
  Claim C2 says that with every option at its default \<^verbatim>\<open>max_range\<close> is 100.0 and that
  the \<^verbatim>\<open>frequency\<close> option has no effect on the ranges. The third line of
  \<^verbatim>\<open>loadParameters\<close> stores the \<^verbatim>\<open>frequency\<close> option in \<^verbatim>\<open>max_range\<close>: with no
  option supplied \<^verbatim>\<open>max_range\<close> is 20.0, and a supplied frequency becomes the maximum
  range.
\<close>

theorem loadParameters_frequency_overwrites_max_range:
  "min_range (snd (loadParameters Map.empty d)) = 0.5 \<and>
   max_range (snd (loadParameters Map.empty d)) = 20.0 \<and>
   max_range (snd (loadParameters [''max_range'' \<mapsto> 100.0, ''frequency'' \<mapsto> f] d)) = f"
  by (simp add: loadParameters_def param_def)

section \<open>The round trip of section 8\<close>

text \<open>
  Claim C1 says that in the round trip, after packet 1 (no wrap) and packet 2 (which
  crosses 0 degrees at firing 8 and opens the first sweep), packet 3, whose azimuths lie
  within 1 and 45 degrees, is appended to the open sweep and no sweep is emitted. The
  code emits a sweep at packet 3. When the first sweep is opened, \<^verbatim>\<open>last_azimuth\<close>
  keeps the azimuth of the firing before the wrap (firing 7, 359.75 degrees) and is not
  set to the azimuth of firing 23 (3.75 degrees), which lines 248 and 249 do when a
  later sweep is opened. So the first firing of packet 3 (4 degrees) counts as a
  decrease: the sweep with the 16 firings of packet 2 is published, and the points of
  packet 3 start a new sweep.
\<close>

theorem round_trip_packet3_emits_sweep:
  "snd (packetCallback_raw example_consts packet1 fresh_decoder) = [] \<and>
   is_first_sweep after_packet1 \<and>
   snd (packetCallback_raw example_consts packet2 after_packet1) = [ROS_INFO] \<and>
   \<not> is_first_sweep after_packet2 \<and>
   last_azimuth after_packet2 = firing_azimuth (firings after_packet2 7) \<and>
   firing_azimuth (firings after_packet2 23) < firing_azimuth (firings after_packet3 0) \<and>
   firing_azimuth (firings after_packet3 0) < last_azimuth after_packet2 \<and>
   sweep_data after_packet2 r =
     segment_points example_consts (decodePacket example_consts packet2 after_packet1) 8 24 r \<and>
   projected_point example_consts (decodePacket example_consts packet2 after_packet1) 8 0
     \<in> set (sweep_data after_packet2 0) \<and>
   snd (packetCallback_raw example_consts packet3 after_packet2) =
     [Publish (sweep_data after_packet2)] \<and>
   sweep_data after_packet3 r =
     segment_points example_consts
       ((decodePacket example_consts packet3 after_packet2)\<lparr>packet_start_time := 0\<rparr>) 0 24 r"
proof -
  have fs2: "firings after_packet2 = firings (decodePacket example_consts packet2 after_packet1)"
    by (simp add: after_packet2_def call2)
  have fs3: "firings after_packet3 = firings (decodePacket example_consts packet3 after_packet2)"
    by (simp add: after_packet3_def call3)
  have az: "firing_azimuth (firings after_packet2 7) = hundredths 35975"
    "firing_azimuth (firings after_packet2 23) = hundredths 375"
    unfolding fs2 by (simp_all add: decoded_firing_azimuth packet2_def example_azimuth_simps)
  have az3: "firing_azimuth (firings after_packet3 0) = hundredths 400"
    unfolding fs3 by (simp add: decoded_firing_azimuth packet3_def example_azimuth_simps)
  have outside: "segment_points example_consts e a b r = []" if "\<not> r < 16" for e a b
    using that by (simp add: segment_points_outside)
  have "sweep_data after_packet3 r =
     segment_points example_consts
       ((decodePacket example_consts packet3 after_packet2)\<lparr>packet_start_time := 0\<rparr>) 0 24 r"
    by (simp add: after_packet3_def call3 after_packet2_fields outside)
  then show ?thesis
    using packet2_point
    by (simp add: call1 call2 call3 after_packet1_fields after_packet2_fields az az3)
qed

section \<open>The length of the buffer\<close>

text \<open>
  Claim C3 says that a buffer whose length is not the packet size is rejected by an
  explicit length check. The source has no such check: a buffer of 1207 bytes is decoded
  (no warning, no failure, \<^verbatim>\<open>last_azimuth\<close> taken from its blocks), exactly as its
  first 1206 bytes are.
\<close>

theorem long_buffer_is_decoded:
  "length long_message = 1207 \<and>
   last_azimuth fresh_decoder = hundredths 0 \<and>
   (\<exists>d'. packetCallback example_consts long_message fresh_decoder = Inr (d', []) \<and>
         last_azimuth d' = hundredths 16) \<and>
   packetCallback example_consts long_message fresh_decoder =
     packetCallback example_consts (take 1206 long_message) fresh_decoder"
proof (intro conjI)
  show "length long_message = 1207" by (rule long_message_length)
  show "last_azimuth fresh_decoder = hundredths 0" by (rule fresh_decoder_fields)
  have "packetCallback_raw example_consts (castRawPacket long_message) fresh_decoder =
     ((decodePacket example_consts (castRawPacket long_message) fresh_decoder)
        \<lparr>last_azimuth := hundredths 16\<rparr>, [])"
    by (rule packetCallback_raw_first_no_wrap)
       (simp_all add: long_message_valid valid_checkPacketValidity fresh_decoder_fields
          long_message_loop)
  then have "packetCallback example_consts long_message fresh_decoder =
     Inr ((decodePacket example_consts (castRawPacket long_message) fresh_decoder)
        \<lparr>last_azimuth := hundredths 16\<rparr>, [])"
    by (simp add: packetCallback_def long_message_length)
  then show "\<exists>d'. packetCallback example_consts long_message fresh_decoder = Inr (d', []) \<and>
         last_azimuth d' = hundredths 16"
    by simp
  have "same_blocks (castRawPacket (take 1206 long_message)) (castRawPacket long_message)"
    by (simp add: same_blocks_def castRawPacket_def)
  then show "packetCallback example_consts long_message fresh_decoder =
     packetCallback example_consts (take 1206 long_message) fresh_decoder"
    by (simp add: packetCallback_def long_message_length packetCallback_raw_cong)
qed

text \<open>
  Claim C3 as amended: the call makes no length check. A buffer of at least 1200 bytes,
  whatever its length, is reinterpreted as a packet and decoded, and the result depends
  on its first 1200 bytes only.
\<close>

theorem packetCallback_reads_first_1200_bytes:
  assumes "1200 \<le> length msg" "1200 \<le> length msg'" "take 1200 msg' = take 1200 msg"
  shows "packetCallback c msg d = Inr (packetCallback_raw c (castRawPacket msg) d) \<and>
    packetCallback c msg' d = packetCallback c msg d"
proof -
  have "packetCallback_raw c (castRawPacket msg') d =
      packetCallback_raw c (castRawPacket (take 1200 msg')) d"
    using castRawPacket_take [OF assms(2)] by (simp add: packetCallback_raw_cong)
  also have "\<dots> = packetCallback_raw c (castRawPacket msg) d"
    unfolding assms(3)
    using castRawPacket_take [OF assms(1)] by (simp add: packetCallback_raw_cong)
  finally show ?thesis
    using assms(1,2) by (simp add: packetCallback_def)
qed

theorem packetCallback_reads_first_1200_bytes_witness:
  "1200 \<le> length long_message \<and> 1200 \<le> length (take 1206 long_message) \<and>
   take 1200 (take 1206 long_message) = take 1200 long_message \<and>
   packetCallback example_consts (take 1206 long_message) fresh_decoder =
     packetCallback example_consts long_message fresh_decoder"
proof -
  have h: "1200 \<le> length long_message" "1200 \<le> length (take 1206 long_message)"
    "take 1200 (take 1206 long_message) = take 1200 long_message"
    by (simp_all add: long_message_length)
  from packetCallback_reads_first_1200_bytes [OF h, of example_consts fresh_decoder] h
  show ?thesis by simp
qed

section \<open>Invalid packets\<close>

text \<open>
  Claim C4: when some block's header differs from the bank marker, the call warns (once,
  for the first such block), returns the decoder as it was, every member unchanged, and
  publishes no sweep.
\<close>

theorem invalid_packet_dropped:
  assumes "\<exists>i<12. header (blocks p i) \<noteq> UPPER_BANK c"
  shows "\<exists>k<12. header (blocks p k) \<noteq> UPPER_BANK c \<and>
           (\<forall>j<k. header (blocks p j) = UPPER_BANK c) \<and>
           packetCallback_raw c p d = (d, [ROS_WARN k (header (blocks p k))]) \<and>
           published (snd (packetCallback_raw c p d)) = []"
proof (cases rule: checkPacketValidity_cases [where c = c and p = p])
  case (invalid k)
  then have "packetCallback_raw c p d = (d, [ROS_WARN k (header (blocks p k))])"
    by (simp add: packetCallback_raw_invalid)
  with invalid show ?thesis by auto
next
  case valid
  with assms show ?thesis by blast
qed

theorem invalid_packet_dropped_witness:
  "(\<exists>i<12. header (blocks bad_packet i) \<noteq> UPPER_BANK example_consts) \<and>
   packetCallback_raw example_consts bad_packet fresh_decoder =
     (fresh_decoder, [ROS_WARN 3 0])"
proof -
  have bad: "header (blocks bad_packet i) \<noteq> UPPER_BANK example_consts \<longleftrightarrow> i = 3" for i
    by (simp add: bad_packet_def packet1_def example_packet_def example_consts_def)
  then have ex: "\<exists>i<12. header (blocks bad_packet i) \<noteq> UPPER_BANK example_consts"
    by simp
  from invalid_packet_dropped [OF ex, of fresh_decoder] obtain k where
    "header (blocks bad_packet k) \<noteq> UPPER_BANK example_consts"
    "packetCallback_raw example_consts bad_packet fresh_decoder =
       (fresh_decoder, [ROS_WARN k (header (blocks bad_packet k))])"
    by blast
  moreover from this bad have "k = 3" by blast
  moreover have "header (blocks bad_packet 3) = 0"
    by (simp add: bad_packet_def)
  ultimately show ?thesis using ex by simp
qed

section \<open>A wrap while accumulating\<close>

text \<open>
  Claim C5: for a valid packet decoded while accumulating, whose first azimuth decrease
  is at firing \<open>k\<close> with \<open>0 < k < 24\<close>: the in-range points of the firings \<open>[0, k)\<close>
  are appended to the current sweep and that sweep is published; the new sweep holds
  the in-range points of the firings \<open>[k, 24)\<close> alone, their times counted from a
  packet start time of 0; \<^verbatim>\<open>packet_start_time\<close> ends as \<^verbatim>\<open>FIRING_TOFFSET\<close> times
  the \<open>24 - k\<close> firings of the second segment, and \<^verbatim>\<open>last_azimuth\<close> as the azimuth
  of firing 23.
\<close>

theorem accumulating_wrap_closes_and_opens_sweep:
  assumes "\<forall>i<12. header (blocks p i) = UPPER_BANK c"
    and "\<not> is_first_sweep d"
    and "0 < k" "k < 24"
    and "last_azimuth d \<le> firing_azimuth (firings (decodePacket c p d) 0)"
    and "\<forall>j. Suc j < k \<longrightarrow>
           firing_azimuth (firings (decodePacket c p d) j) \<le>
           firing_azimuth (firings (decodePacket c p d) (Suc j))"
    and "firing_azimuth (firings (decodePacket c p d) k) <
           firing_azimuth (firings (decodePacket c p d) (k - 1))"
  shows "\<exists>d'. packetCallback_raw c p d =
             (d', [Publish (\<lambda>r. sweep_data d r @ segment_points c (decodePacket c p d) 0 k r)]) \<and>
           (\<forall>r<16. sweep_data d' r =
              segment_points c ((decodePacket c p d)\<lparr>packet_start_time := 0\<rparr>) k 24 r) \<and>
           packet_start_time d' = 0 + FIRING_TOFFSET c * real (24 - k) \<and>
           last_azimuth d' = firing_azimuth (firings (decodePacket c p d) 23) \<and>
           firings d' = firings (decodePacket c p d) \<and>
           \<not> is_first_sweep d'"
proof -
  have "new_sweep_start_loop (firings (decodePacket c p d)) 0 (last_azimuth d) =
      (k, firing_azimuth (firings (decodePacket c p d) (k - 1)))"
    using assms by (intro new_sweep_start_loop_decrease) simp_all
  moreover from assms have "k \<noteq> 24" by simp
  ultimately show ?thesis
    using assms(1,2)
    by (simp add: packetCallback_raw_wrap valid_checkPacketValidity)
qed

theorem accumulating_wrap_witness:
  "\<not> is_first_sweep after_packet3 \<and>
   snd (packetCallback_raw example_consts packet4 after_packet3) =
     [Publish (\<lambda>r. sweep_data after_packet3 r @
        segment_points example_consts (decodePacket example_consts packet4 after_packet3) 0 3 r)] \<and>
   packet_start_time (fst (packetCallback_raw example_consts packet4 after_packet3)) =
     55.296 * 21 \<and>
   last_azimuth (fst (packetCallback_raw example_consts packet4 after_packet3)) =
     hundredths 820"
proof -
  have mono: "\<forall>j. Suc j < 3 \<longrightarrow>
      firing_azimuth (firings (decodePacket example_consts packet4 after_packet3) j) \<le>
      firing_azimuth (firings (decodePacket example_consts packet4 after_packet3) (Suc j))"
  proof (intro allI impI)
    fix j :: nat
    assume "Suc j < 3"
    then consider "j = 0" | "j = 1" by linarith
    then show "firing_azimuth (firings (decodePacket example_consts packet4 after_packet3) j) \<le>
      firing_azimuth (firings (decodePacket example_consts packet4 after_packet3) (Suc j))"
      by cases (simp_all add: packet4_azimuths numeral_2_eq_2 [symmetric])
  qed
  have valid: "\<forall>i<12. header (blocks packet4 i) = UPPER_BANK example_consts"
    unfolding packet4_def by (rule example_packet_valid)
  have "\<exists>d'. packetCallback_raw example_consts packet4 after_packet3 =
             (d', [Publish (\<lambda>r. sweep_data after_packet3 r @
                segment_points example_consts (decodePacket example_consts packet4 after_packet3) 0 3 r)]) \<and>
           (\<forall>r<16. sweep_data d' r =
              segment_points example_consts
                ((decodePacket example_consts packet4 after_packet3)\<lparr>packet_start_time := 0\<rparr>) 3 24 r) \<and>
           packet_start_time d' = 0 + FIRING_TOFFSET example_consts * real (24 - 3 :: nat) \<and>
           last_azimuth d' =
             firing_azimuth (firings (decodePacket example_consts packet4 after_packet3) 23) \<and>
           firings d' = firings (decodePacket example_consts packet4 after_packet3) \<and>
           \<not> is_first_sweep d'"
    by (rule accumulating_wrap_closes_and_opens_sweep [OF valid _ _ _ _ mono])
       (simp_all add: after_packet3_fields packet4_azimuths)
  then show ?thesis
    by (auto simp add: after_packet3_fields packet4_azimuths example_consts_def)
qed

section \<open>Firing azimuths\<close>

text \<open>
  Claim C6: firing \<open>2i\<close> has the azimuth of block \<open>i\<close>; an odd firing \<open>j < 23\<close> is
  interpolated between the firings \<open>j - 1\<close> and \<open>j + 1\<close>, from firing \<open>j - 1\<close>;
  firing 23 takes the firings 20 and 22 as the left and the right value of the
  difference, from firing 22.
\<close>

theorem firing_azimuths_interpolated:
  "(\<forall>i<12. firing_azimuth (firings (decodePacket c p d) (2 * i)) =
       rawAzimuthToDouble (rotation (blocks p i))) \<and>
   (\<forall>j<23. odd j \<longrightarrow>
       firing_azimuth (firings (decodePacket c p d) j) =
         interpolated_azimuth (firing_azimuth (firings (decodePacket c p d) (j - 1)))
           (firing_azimuth (firings (decodePacket c p d) (j + 1)))
           (firing_azimuth (firings (decodePacket c p d) (j - 1)))) \<and>
   firing_azimuth (firings (decodePacket c p d) 23) =
     interpolated_azimuth (firing_azimuth (firings (decodePacket c p d) 20))
       (firing_azimuth (firings (decodePacket c p d) 22))
       (firing_azimuth (firings (decodePacket c p d) 22))"
proof (intro conjI allI impI)
  fix i :: nat
  assume "i < 12"
  then show "firing_azimuth (firings (decodePacket c p d) (2 * i)) =
      rawAzimuthToDouble (rotation (blocks p i))"
    by (simp add: even_firing block_azimuth_def)
next
  fix j :: nat
  assume "j < 23" "odd j"
  then obtain i where j: "j = 2 * i + 1" and i: "i < 11"
    by (auto elim!: oddE)
  from i have "firing_azimuth (firings (decodePacket c p d) (2 * i)) = block_azimuth p i"
    by (simp add: even_firing)
  moreover from i have
    "firing_azimuth (firings (decodePacket c p d) (2 * (i + 1))) = block_azimuth p (i + 1)"
    by (intro even_firing) simp
  ultimately show "firing_azimuth (firings (decodePacket c p d) j) =
         interpolated_azimuth (firing_azimuth (firings (decodePacket c p d) (j - 1)))
           (firing_azimuth (firings (decodePacket c p d) (j + 1)))
           (firing_azimuth (firings (decodePacket c p d) (j - 1)))"
    unfolding j using odd_firing [OF i, of c p d] by simp
next
  have "firing_azimuth (firings (decodePacket c p d) (2 * 10)) = block_azimuth p 10"
    "firing_azimuth (firings (decodePacket c p d) (2 * 11)) = block_azimuth p 11"
    using even_firing [of 10 c p d] even_firing [of 11 c p d] by simp_all
  then show "firing_azimuth (firings (decodePacket c p d) 23) =
     interpolated_azimuth (firing_azimuth (firings (decodePacket c p d) 20))
       (firing_azimuth (firings (decodePacket c p d) 22))
       (firing_azimuth (firings (decodePacket c p d) 22))"
    by (simp add: last_firing)
qed

theorem firing_azimuths_interpolated_witness:
  "firing_azimuth (firings (decodePacket example_consts packet4 fresh_decoder) 2) =
     hundredths 35980 \<and>
   firing_azimuth (firings (decodePacket example_consts packet4 fresh_decoder) 3) =
     hundredths 20 \<and>
   firing_azimuth (firings (decodePacket example_consts packet4 fresh_decoder) 23) =
     hundredths 820"
proof -
  let ?az = "\<lambda>j. firing_azimuth (firings (decodePacket example_consts packet4 fresh_decoder) j)"
  note facts = firing_azimuths_interpolated [of example_consts packet4 fresh_decoder]
  have blk: "rawAzimuthToDouble (rotation (blocks packet4 1)) = hundredths 35980"
    "rawAzimuthToDouble (rotation (blocks packet4 2)) = hundredths 60"
    "rawAzimuthToDouble (rotation (blocks packet4 10)) = hundredths 700"
    "rawAzimuthToDouble (rotation (blocks packet4 11)) = hundredths 780"
    "rawAzimuthToDouble (rotation (blocks packet4 (Suc 0))) = hundredths 35980"
    by (simp_all add: packet4_def example_packet_def rawAzimuthToDouble_hundredths)
  from facts have even: "\<forall>i<12. ?az (2 * i) = rawAzimuthToDouble (rotation (blocks packet4 i))"
    by blast
  have e: "?az 2 = hundredths 35980" "?az 4 = hundredths 60" "?az 20 = hundredths 700"
    "?az 22 = hundredths 780"
    using even [rule_format, of 1] even [rule_format, of 2] even [rule_format, of 10]
      even [rule_format, of 11] by (simp_all add: blk)
  from facts have "\<forall>j<23. odd j \<longrightarrow>
      ?az j = interpolated_azimuth (?az (j - 1)) (?az (j + 1)) (?az (j - 1))"
    by blast
  from this [rule_format, of 3] have "?az 3 = hundredths 20"
    by (simp add: e interpolated_azimuth_hundredths)
  moreover from facts have "?az 23 = interpolated_azimuth (?az 20) (?az 22) (?az 22)"
    by blast
  then have "?az 23 = hundredths 820"
    by (simp add: e interpolated_azimuth_hundredths)
  ultimately show ?thesis using e by simp
qed

section \<open>Projection of a point\<close>

text \<open>
  Claim C7: every point that a call appends comes from a firing and a channel of the
  packet: its native coordinates are \<open>x = distance * cos altitude * sin azimuth\<close>,
  \<open>y = distance * cos altitude * cos azimuth\<close> and \<open>z = distance * sin altitude\<close>,
  its output coordinates \<open>(y, -x, z)\<close>, and its time the packet start time plus the
  firing index times \<^verbatim>\<open>FIRING_TOFFSET\<close> plus the channel index times
  \<^verbatim>\<open>DSR_TOFFSET\<close>. For every physical channel the call appends two lists of points.
  Those of the first list are appended to the sweep the decoder holds, which is
  published with them if the call publishes; their packet start time is that of the
  decoder at the call's start. Those of the second list, empty unless the call
  publishes, make the new sweep after the publication; their packet start time is the
  0 to which line 248 resets it.
\<close>

theorem appended_point_is_projection:
  assumes "packetCallback_raw c p d = (d', evs)"
  shows "\<exists>before_publish after_publish.
      (\<forall>sw \<in> set (published evs). sw r = sweep_data d r @ before_publish) \<and>
      (if published evs = []
       then sweep_data d' r = sweep_data d r @ before_publish \<and> after_publish = []
       else r < 16 \<longrightarrow> sweep_data d' r = after_publish) \<and>
      (\<forall>q t. q \<in> set before_publish \<and> t = packet_start_time d \<or>
             q \<in> set after_publish \<and> t = 0 \<longrightarrow>
         (\<exists>fir_idx scan_idx. fir_idx < 24 \<and> scan_idx < 16 \<and>
            point_distance q = distance (firings d' fir_idx) scan_idx \<and>
            point_azimuth q = azimuth (firings d' fir_idx) scan_idx \<and>
            (let x = point_distance q * cos (scan_altitude c scan_idx) * sin (point_azimuth q);
                 y = point_distance q * cos (scan_altitude c scan_idx) * cos (point_azimuth q);
                 z = point_distance q * sin (scan_altitude c scan_idx)
             in point_x q = y \<and> point_y q = - x \<and> point_z q = z) \<and>
            point_time q =
              t + real fir_idx * FIRING_TOFFSET c + real scan_idx * DSR_TOFFSET c))"
proof -
  let ?d1 = "decodePacket c p d"
  let ?d0 = "?d1\<lparr>packet_start_time := 0\<rparr>"
  let ?P = "\<lambda>q t. \<exists>fir_idx scan_idx. fir_idx < 24 \<and> scan_idx < 16 \<and>
            point_distance q = distance (firings d' fir_idx) scan_idx \<and>
            point_azimuth q = azimuth (firings d' fir_idx) scan_idx \<and>
            (let x = point_distance q * cos (scan_altitude c scan_idx) * sin (point_azimuth q);
                 y = point_distance q * cos (scan_altitude c scan_idx) * cos (point_azimuth q);
                 z = point_distance q * sin (scan_altitude c scan_idx)
             in point_x q = y \<and> point_y q = - x \<and> point_z q = z) \<and>
            point_time q =
              t + real fir_idx * FIRING_TOFFSET c + real scan_idx * DSR_TOFFSET c"
  have from_segment: "?P q (packet_start_time e)"
    if q: "q \<in> set (segment_points c e a b r)" and b: "b \<le> 24"
      and e: "firings e = firings d'"
    for e a b q
  proof -
    from q obtain f s where fs: "f < b" "s < 16" "q = projected_point c e f s"
      unfolding segment_points_member by blast
    show ?thesis
      apply (rule exI [of _ f], rule exI [of _ s])
      using fs b e by (simp add: projected_point_fields Let_def)
  qed
  have both: ?thesis
    if pub: "\<forall>sw \<in> set (published evs). sw r = sweep_data d r @ segment_points c ?d1 a b r"
      and kept: "if published evs = []
         then sweep_data d' r = sweep_data d r @ segment_points c ?d1 a b r \<and> aft = []
         else r < 16 \<longrightarrow> sweep_data d' r = aft"
      and aft: "aft = [] \<or> aft = segment_points c ?d0 b 24 r"
      and b: "b \<le> 24" and fs: "a < b \<or> aft \<noteq> [] \<Longrightarrow> firings d' = firings ?d1"
    for a b aft
  proof (rule exI [of _ "segment_points c ?d1 a b r"], rule exI [of _ aft],
      intro conjI allI impI)
    show "\<forall>sw \<in> set (published evs). sw r = sweep_data d r @ segment_points c ?d1 a b r"
      by (rule pub)
    show "if published evs = []
       then sweep_data d' r = sweep_data d r @ segment_points c ?d1 a b r \<and> aft = []
       else r < 16 \<longrightarrow> sweep_data d' r = aft"
      by (rule kept)
  next
    fix q t
    assume "q \<in> set (segment_points c ?d1 a b r) \<and> t = packet_start_time d \<or>
       q \<in> set aft \<and> t = 0"
    then consider "q \<in> set (segment_points c ?d1 a b r)" "t = packet_start_time d"
      | "q \<in> set aft" "t = 0" by blast
    then show "?P q t"
    proof cases
      case 1
      from 1(1) have "a < b"
        unfolding segment_points_member by auto
      with fs have "firings ?d1 = firings d'" by simp
      from from_segment [OF 1(1) b this] 1(2) show ?thesis by simp
    next
      case 2
      with aft have q: "q \<in> set (segment_points c ?d0 b 24 r)" and "aft \<noteq> []" by auto
      with fs have "firings ?d0 = firings d'" by simp
      from from_segment [OF q _ this] 2(2) show ?thesis by simp
    qed
  qed
  show ?thesis
  proof (cases rule: packetCallback_raw_cases [where c = c and p = p and d = d])
    case (invalid k)
    with assms show ?thesis
      by (intro both [of 0 0 "[]"]) auto
  next
    case (waiting la)
    with assms show ?thesis
      by (intro both [of 0 0 "[]"]) auto
  next
    case (start k la)
    with assms show ?thesis
      by (intro both [of k 24 "[]"]) auto
  next
    case (continue la)
    with assms show ?thesis
      by (intro both [of 0 24 "[]"]) auto
  next
    case (wrap k)
    with assms show ?thesis
      by (intro both [of 0 k "segment_points c ?d0 k 24 r"]) auto
  qed
qed

theorem appended_point_is_projection_witness:
  "packet_start_time after_packet3 = 55.296 * 24 \<and>
   (\<exists>sw. published (snd (packetCallback_raw example_consts packet4 after_packet3)) = [sw] \<and>
      projected_point example_consts (decodePacket example_consts packet4 after_packet3) 0 0
        \<in> set (sw 0)) \<and>
   projected_point example_consts
       ((decodePacket example_consts packet4 after_packet3)\<lparr>packet_start_time := 0\<rparr>) 3 0
     \<in> set (sweep_data after_packet4 0) \<and>
   (\<exists>fir_idx scan_idx. fir_idx < 24 \<and> scan_idx < 16 \<and>
      point_time (projected_point example_consts
          (decodePacket example_consts packet4 after_packet3) 0 0) =
        packet_start_time after_packet3 + real fir_idx * FIRING_TOFFSET example_consts +
          real scan_idx * DSR_TOFFSET example_consts) \<and>
   (\<exists>fir_idx scan_idx. fir_idx < 24 \<and> scan_idx < 16 \<and>
      point_time (projected_point example_consts
          ((decodePacket example_consts packet4 after_packet3)\<lparr>packet_start_time := 0\<rparr>) 3 0) =
        0 + real fir_idx * FIRING_TOFFSET example_consts +
          real scan_idx * DSR_TOFFSET example_consts) \<and>
   point_time (projected_point example_consts
       (decodePacket example_consts packet4 after_packet3) 0 0) = 55.296 * 24 \<and>
   point_time (projected_point example_consts
       ((decodePacket example_consts packet4 after_packet3)\<lparr>packet_start_time := 0\<rparr>) 3 0) =
     55.296 * 3"
proof -
  let ?d1 = "decodePacket example_consts packet4 after_packet3"
  let ?d0 = "?d1\<lparr>packet_start_time := 0\<rparr>"
  let ?q1 = "projected_point example_consts ?d1 0 0"
  let ?q2 = "projected_point example_consts ?d0 3 0"
  let ?sw = "\<lambda>r. sweep_data after_packet3 r @ segment_points example_consts ?d1 0 3 r"
  have call: "packetCallback_raw example_consts packet4 after_packet3 =
      (after_packet4, [Publish ?sw])"
    by (simp add: after_packet4_def call4)
  have kept: "sweep_data after_packet4 0 = segment_points example_consts ?d0 3 24 0"
    by (simp add: after_packet4_def call4)
  from appended_point_is_projection [OF call, of 0]
  obtain before_publish after_publish where
    pub: "\<forall>sw \<in> set (published [Publish ?sw]). sw 0 = sweep_data after_packet3 0 @ before_publish"
    and aft: "if published [Publish ?sw] = []
       then sweep_data after_packet4 0 = sweep_data after_packet3 0 @ before_publish \<and>
         after_publish = []
       else (0::nat) < 16 \<longrightarrow> sweep_data after_packet4 0 = after_publish"
    and formula: "\<forall>q t. q \<in> set before_publish \<and> t = packet_start_time after_packet3 \<or>
             q \<in> set after_publish \<and> t = 0 \<longrightarrow>
         (\<exists>fir_idx scan_idx. fir_idx < 24 \<and> scan_idx < 16 \<and>
            point_distance q = distance (firings after_packet4 fir_idx) scan_idx \<and>
            point_azimuth q = azimuth (firings after_packet4 fir_idx) scan_idx \<and>
            (let x = point_distance q * cos (scan_altitude example_consts scan_idx) *
                       sin (point_azimuth q);
                 y = point_distance q * cos (scan_altitude example_consts scan_idx) *
                       cos (point_azimuth q);
                 z = point_distance q * sin (scan_altitude example_consts scan_idx)
             in point_x q = y \<and> point_y q = - x \<and> point_z q = z) \<and>
            point_time q =
              t + real fir_idx * FIRING_TOFFSET example_consts +
                real scan_idx * DSR_TOFFSET example_consts)"
    by blast
  from pub have "before_publish = segment_points example_consts ?d1 0 3 0" by simp
  with packet4_points(1) have q1: "?q1 \<in> set before_publish" by simp
  from aft kept have "after_publish = segment_points example_consts ?d0 3 24 0" by simp
  with packet4_points(2) have q2: "?q2 \<in> set after_publish" by simp
  from formula q1 have f1: "\<exists>fir_idx scan_idx. fir_idx < 24 \<and> scan_idx < 16 \<and>
      point_time ?q1 = packet_start_time after_packet3 +
        real fir_idx * FIRING_TOFFSET example_consts + real scan_idx * DSR_TOFFSET example_consts"
    by blast
  from formula q2 have f2: "\<exists>fir_idx scan_idx. fir_idx < 24 \<and> scan_idx < 16 \<and>
      point_time ?q2 = 0 +
        real fir_idx * FIRING_TOFFSET example_consts + real scan_idx * DSR_TOFFSET example_consts"
    by blast
  have times: "point_time ?q1 = 55.296 * 24" "point_time ?q2 = 55.296 * 3"
    by (simp_all add: projected_point_fields after_packet3_time example_consts_def)
  have "\<exists>sw. published (snd (packetCallback_raw example_consts packet4 after_packet3)) = [sw] \<and>
      ?q1 \<in> set (sw 0)"
    using packet4_points(1) by (simp add: call)
  moreover have "?q2 \<in> set (sweep_data after_packet4 0)"
    using packet4_points(2) by (simp add: kept)
  ultimately show ?thesis
    using f1 f2 times after_packet3_time by blast
qed

section \<open>Range filter\<close>

text \<open>
  Claim C8: whatever packets are delivered to a decoder whose sweep holds in-range
  points only (an empty sweep, for one), no point of a published sweep has a distance
  below \<^verbatim>\<open>min_range\<close> or above \<^verbatim>\<open>max_range\<close>; a measurement out of range leaves
  the decoder as it is, and every in-range measurement of a segment is appended,
  whatever the other measurements are.
\<close>

theorem out_of_range_points_never_emitted:
  assumes "\<forall>r. \<forall>q \<in> set (sweep_data d r).
      min_range d \<le> point_distance q \<and> point_distance q \<le> max_range d"
    and "sw \<in> set (published (snd (deliver c ps d)))"
    and "q \<in> set (sw r)"
  shows "\<not> (point_distance q < min_range d \<or> point_distance q > max_range d) \<and>
    (\<forall>e f s. \<not> isPointInRange e (distance (firings e f) s) \<longrightarrow> point_body c f s e = e) \<and>
    (\<forall>e a b f s. a \<le> f \<and> f < b \<and> s < 16 \<and> isPointInRange e (distance (firings e f) s) \<longrightarrow>
       projected_point c e f s \<in>
         set (sweep_data (append_firings c a b e) (physical_index s)))"
proof -
  have "min_range d \<le> point_distance q \<and> point_distance q \<le> max_range d"
    using deliver_in_range [OF assms(1), of c ps] assms(2,3) by blast
  then show ?thesis
    using point_body_skip in_range_appended by auto
qed

theorem out_of_range_points_never_emitted_witness:
  "sweep_data after_packet2 \<in>
     set (published (snd (deliver example_consts [packet1, packet2, packet3] fresh_decoder))) \<and>
   projected_point example_consts (decodePacket example_consts packet2 after_packet1) 8 0
     \<in> set (sweep_data after_packet2 0) \<and>
   min_range fresh_decoder \<le>
     point_distance (projected_point example_consts
       (decodePacket example_consts packet2 after_packet1) 8 0) \<and>
   point_distance (projected_point example_consts
       (decodePacket example_consts packet2 after_packet1) 8 0) \<le> max_range fresh_decoder"
proof -
  have empty: "\<forall>r. \<forall>q \<in> set (sweep_data fresh_decoder r).
      min_range fresh_decoder \<le> point_distance q \<and> point_distance q \<le> max_range fresh_decoder"
    by (simp add: fresh_decoder_fields)
  have pub: "sweep_data after_packet2 \<in>
     set (published (snd (deliver example_consts [packet1, packet2, packet3] fresh_decoder)))"
    unfolding deliver_round_trip by simp
  from out_of_range_points_never_emitted [OF empty pub packet2_point]
  show ?thesis
    using pub packet2_point by (simp add: not_less)
qed

section \<open>Waiting for the first revolution\<close>

text \<open>
  Claim C9: when the decoder waits for its first revolution and valid packets arrive in
  which no firing azimuth is below the azimuth seen before it, then after every packet
  no event has occurred (no sweep is published), the sweep is as it was, and the
  decoder still waits. The firing azimuths of a packet are those that
  \<^verbatim>\<open>decodePacket\<close> stores; they are the same whatever decoder decodes the packet.
\<close>

theorem awaiting_first_revolution_never_emits:
  assumes "is_first_sweep d"
    and "\<forall>p \<in> set ps. \<forall>i<12. header (blocks p i) = UPPER_BANK c"
    and "sorted (last_azimuth d # concat (map (\<lambda>p. packet_firing_azimuths c p d) ps))"
  shows "\<forall>n. snd (deliver c (take n ps) d) = [] \<and>
    is_first_sweep (fst (deliver c (take n ps) d)) \<and>
    sweep_data (fst (deliver c (take n ps) d)) = sweep_data d"
proof
  fix n
  let ?f = "\<lambda>p. packet_firing_azimuths c p d"
  have "concat (map ?f ps) = concat (map ?f (take n ps)) @ concat (map ?f (drop n ps))"
    by (metis append_take_drop_id concat_append map_append)
  with assms(3) have "sorted (last_azimuth d # concat (map ?f (take n ps)))"
    by (simp add: sorted_append)
  moreover have "\<forall>p \<in> set (take n ps). \<forall>i<12. header (blocks p i) = UPPER_BANK c"
    using assms(2) by (meson in_set_takeD)
  ultimately show "snd (deliver c (take n ps) d) = [] \<and>
    is_first_sweep (fst (deliver c (take n ps) d)) \<and>
    sweep_data (fst (deliver c (take n ps) d)) = sweep_data d"
    using assms(1) by (intro deliver_first_sweep_no_wrap)
qed

theorem awaiting_first_revolution_witness:
  "is_first_sweep fresh_decoder \<and>
   snd (deliver example_consts [packet1, packet1b] fresh_decoder) = [] \<and>
   is_first_sweep (fst (deliver example_consts [packet1, packet1b] fresh_decoder)) \<and>
   sweep_data (fst (deliver example_consts [packet1, packet1b] fresh_decoder)) =
     sweep_data fresh_decoder"
proof -
  have valid: "\<forall>p \<in> set [packet1, packet1b].
      \<forall>i<12. header (blocks p i) = UPPER_BANK example_consts"
    by (simp add: packet1_def packet1b_def example_packet_valid)
  have az1: "packet_firing_azimuths example_consts packet1 fresh_decoder =
      map hundredths [1000, 2500, 4000, 5500, 7000, 8500, 10000, 11500, 13000, 14500, 16000,
        17500, 19000, 20500, 22000, 23500, 25000, 26500, 28000, 30750, 33500, 34250, 35000,
        35750]"
    by (simp add: packet_firing_azimuths_eq upt_rec packet1_def example_azimuth_simps)
  have az2: "packet_firing_azimuths example_consts packet1b fresh_decoder =
      map hundredths [35760, 35765, 35770, 35775, 35780, 35785, 35790, 35795, 35800, 35805,
        35810, 35815, 35820, 35825, 35830, 35835, 35840, 35845, 35850, 35855, 35860, 35865,
        35870, 35875]"
    by (simp add: packet_firing_azimuths_eq upt_rec packet1b_def example_azimuth_simps)
  have sorted: "sorted (last_azimuth fresh_decoder #
      concat (map (\<lambda>p. packet_firing_azimuths example_consts p fresh_decoder)
        [packet1, packet1b]))"
    by (simp add: az1 az2 fresh_decoder_fields sorted_Cons2 del: sorted_wrt.simps)
  from awaiting_first_revolution_never_emits [OF fresh_decoder_fields(1) valid sorted,
      rule_format, of 2]
  show ?thesis
    by (simp add: fresh_decoder_fields(1))
qed

section \<open>One sweep per call\<close>



end
